theory Spec2Isabelle
  imports Main "HOL-Library.Multiset" "HOL-Library.Sublist" "HOL-Library.AList"
begin

section \<open>Strings and the path sanitizer\<close>

text \<open>
  A Python \<open>str\<close> is a sequence of code points. The model uses \<^typ>\<open>string\<close>, one
  \<^typ>\<open>char\<close> per code point, which covers the code points U+0000 to U+00FF; the
  classification predicates below are Python's \<open>str.isspace\<close> and \<open>str.isalnum\<close> on
  that range.
\<close>

definition isspace :: "char \<Rightarrow> bool" where
  "isspace c =
     (let n = (of_char c :: nat)
      in (9 \<le> n \<and> n \<le> 13) \<or> (28 \<le> n \<and> n \<le> 32) \<or> n = 133 \<or> n = 160)"

definition isalnum :: "char \<Rightarrow> bool" where
  "isalnum c =
     (let n = (of_char c :: nat)
      in (48 \<le> n \<and> n \<le> 57) \<or> (65 \<le> n \<and> n \<le> 90) \<or> (97 \<le> n \<and> n \<le> 122)
         \<or> n = 170 \<or> n = 178 \<or> n = 179 \<or> n = 181 \<or> n = 185 \<or> n = 186
         \<or> (188 \<le> n \<and> n \<le> 190) \<or> (192 \<le> n \<and> n \<le> 214)
         \<or> (216 \<le> n \<and> n \<le> 246) \<or> (248 \<le> n \<and> n \<le> 255))"

text \<open>\<open>s.strip()\<close>: leading and trailing whitespace removed.\<close>

definition strip :: "string \<Rightarrow> string" where
  "strip s = rev (dropWhile isspace (rev (dropWhile isspace s)))"

text \<open>
  \<open>s.split()\<close> with no argument: the maximal runs of non-whitespace characters, in
  order. The first argument is the word being read.
\<close>

fun split_from :: "string \<Rightarrow> string \<Rightarrow> string list" where
  "split_from w [] = (if w = [] then [] else [w])"
| "split_from w (c # cs) =
     (if isspace c then (if w = [] then split_from [] cs else w # split_from [] cs)
      else split_from (w @ [c]) cs)"

definition split :: "string \<Rightarrow> string list" where
  "split s = split_from [] s"

text \<open>\<open>" ".join(ws)\<close>.\<close>

fun join_space :: "string list \<Rightarrow> string" where
  "join_space [] = []"
| "join_space [w] = w"
| "join_space (w # v # ws) = w @ '' '' @ join_space (v # ws)"

text \<open>
  The body of the loop of \<open>sanitize\<close>: a character is kept when it is alphanumeric or
  one of \<open>" ._-()+[]#/"\<close>, and replaced by a space otherwise.
\<close>

definition safe_char :: "char \<Rightarrow> char" where
  "safe_char ch = (if isalnum ch \<or> ch \<in> set '' ._-()+[]#/'' then ch else CHR '' '')"

definition sanitize :: "string \<Rightarrow> string" where
  "sanitize name =
     (if name = [] then ''Unknown''
      else let s = join_space (split (map safe_char (strip name)));
               trimmed = (if length s > 120 then take 120 s else s)
           in if trimmed = [] then ''Unknown'' else trimmed)"


section \<open>Paths\<close>

text \<open>
  A \<open>pathlib\<close> path is the list of its parts, as \<open>PurePosixPath.parts\<close> gives them: an
  absolute path starts with the root part \<open>/\<close>. The operator \<open>p / s\<close> splits the string
  \<open>s\<close> at every \<open>/\<close>, drops empty and \<open>.\<close> segments, and starts again from the root when
  \<open>s\<close> is absolute.
\<close>

type_synonym path = "string list"

fun split_sep :: "string \<Rightarrow> string \<Rightarrow> string list" where
  "split_sep w [] = [w]"
| "split_sep w (c # cs) =
     (if c = CHR ''/'' then w # split_sep [] cs else split_sep (w @ [c]) cs)"

definition segments :: "string \<Rightarrow> string list" where
  "segments s = filter (\<lambda>x. x \<noteq> [] \<and> x \<noteq> ''.'') (split_sep [] s)"

definition root_of :: "string \<Rightarrow> string option" where
  "root_of s =
     (let n = length (takeWhile (\<lambda>c. c = CHR ''/'') s)
      in if n = 0 then None else if n = 2 then Some ''//'' else Some ''/'')"

definition joinpath :: "path \<Rightarrow> string \<Rightarrow> path" where
  "joinpath p s = (case root_of s of Some r \<Rightarrow> r # segments s | None \<Rightarrow> p @ segments s)"

text \<open>\<open>p.name\<close>: the final part, empty for the root and for the empty path.\<close>

definition name_of :: "path \<Rightarrow> string" where
  "name_of p = (if p = [] \<or> take 1 (last p) = ''/'' then [] else last p)"

text \<open>
  \<open>s.rfind(ch)\<close> is the last index of \<open>ch\<close> in \<open>s\<close>, or \<open>-1\<close>. \<open>p.suffix\<close> is, with
  \<open>i = name.rfind('.')\<close>, the slice \<open>name[i:]\<close> when \<open>0 < i < len(name) - 1\<close>, and the
  empty string otherwise.
\<close>

definition rfind :: "char \<Rightarrow> string \<Rightarrow> int" where
  "rfind ch s =
     (if ch \<in> set s
      then int (length s) - 1 - int (length (takeWhile (\<lambda>c. c \<noteq> ch) (rev s)))
      else - 1)"

definition suffix_of :: "path \<Rightarrow> string" where
  "suffix_of p =
     (let n = name_of p; i = rfind CHR ''.'' n
      in if 0 < i \<and> i < int (length n) - 1 then drop (nat i) n else [])"

text \<open>\<open>s.lower()\<close> on the code points of the model.\<close>

definition lower_char :: "char \<Rightarrow> char" where
  "lower_char c =
     (let n = (of_char c :: nat)
      in if (65 \<le> n \<and> n \<le> 90) \<or> (192 \<le> n \<and> n \<le> 214) \<or> (216 \<le> n \<and> n \<le> 222)
         then char_of (n + 32) else c)"

definition lower :: "string \<Rightarrow> string" where
  "lower s = map lower_char s"

section \<open>Metadata extraction\<close>

text \<open>
  A \<open>datetime\<close> value; \<open>tzinfo\<close> is the offset of an aware value and \<open>None\<close> for a naive
  one.
\<close>

record datetime =
  dt_year :: nat
  dt_month :: nat
  dt_day :: nat
  dt_hour :: nat
  dt_minute :: nat
  dt_second :: nat
  tzinfo :: "int option"

text \<open>
  A value as \<open>json.loads\<close> returns it: a string, an integer, a float (given by the 64 bits
  of its double, so that a zero of either sign is recognisable), a boolean, \<open>None\<close>, a
  list or a dictionary. \<open>py_truthy\<close> is its truth value.
\<close>

datatype jval =
  JStr string
| JInt int
| JFloat nat
| JBool bool
| JNull
| JArr "jval list"
| JObj "(string \<times> jval) list"

definition py_truthy :: "jval \<Rightarrow> bool" where
  "py_truthy v =
     (case v of
        JStr s \<Rightarrow> s \<noteq> []
      | JInt i \<Rightarrow> i \<noteq> 0
      | JFloat bits \<Rightarrow> bits mod 2 ^ 63 \<noteq> 0
      | JBool b \<Rightarrow> b
      | JNull \<Rightarrow> False
      | JArr xs \<Rightarrow> xs \<noteq> []
      | JObj kvs \<Rightarrow> kvs \<noteq> [])"

text \<open>
  The functions of the Python library that the program calls and whose result the model
  does not compute: \<open>datetime.strptime\<close> (\<open>None\<close> when it raises), formatting of a
  \<open>datetime\<close> with a format string, the SHA-1 hex digest of a byte string, \<open>str\<close> of a
  decoded JSON value that is not a string, and \<open>==\<close> between two decoded JSON values.
\<close>

record pylib =
  strptime :: "string \<Rightarrow> string \<Rightarrow> datetime option"
  strftime :: "datetime \<Rightarrow> string \<Rightarrow> string"
  sha1_hexdigest :: "string \<Rightarrow> string"
  py_str :: "jval \<Rightarrow> string"
  py_eq :: "jval \<Rightarrow> jval \<Rightarrow> bool"

text \<open>\<open>str(v)\<close>: a string is itself.\<close>

definition str_of :: "pylib \<Rightarrow> jval \<Rightarrow> string" where
  "str_of lib v = (case v of JStr s \<Rightarrow> s | _ \<Rightarrow> py_str lib v)"

text \<open>\<open>parse_dt_str\<close>: the first of the four formats that parses, made naive.\<close>

fun try_formats :: "pylib \<Rightarrow> string \<Rightarrow> string list \<Rightarrow> datetime option" where
  "try_formats lib s [] = None"
| "try_formats lib s (fmt # fmts) =
     (case strptime lib s fmt of
        Some d \<Rightarrow> Some (d\<lparr>tzinfo := None\<rparr>)
      | None \<Rightarrow> try_formats lib s fmts)"

definition parse_dt_str :: "pylib \<Rightarrow> string \<Rightarrow> datetime option" where
  "parse_dt_str lib s =
     try_formats lib (strip s)
       [''%Y:%m:%d %H:%M:%S'', ''%Y-%m-%d %H:%M:%S'',
        ''%Y:%m:%d %H:%M:%S%z'', ''%Y-%m-%d %H:%M:%S%z'']"

text \<open>
  What one extraction strategy finds when it looks at a file: the library or tool is
  missing (\<open>Unavailable\<close>), reading the file raises (\<open>Raises\<close>), or it reads a
  dictionary of tags (\<open>Tags\<close>). exifread is given each value in its \<open>str\<close> form, the
  only way the program uses it. Pillow is given each value as its truth value and its
  \<open>str\<close> form, since the program tests the value before it converts it. exiftool is given
  the values as decoded from its JSON output, where a value that looks like a number is a
  number.
\<close>

datatype ('k, 'v) probe = Unavailable | Raises | Tags "('k \<times> 'v) list"

type_synonym pil_value = "bool \<times> string"

type_synonym triple = "datetime option \<times> string option \<times> string option"

text \<open>
  The date loop shared by the strategies: \<open>for key in keys: if key in tags: dto =
  parse_dt_str(str(tags[key])); if dto: break\<close>.
\<close>

fun scan_dates :: "pylib \<Rightarrow> ('k \<times> string) list \<Rightarrow> 'k list \<Rightarrow> datetime option \<Rightarrow> datetime option" where
  "scan_dates lib tags [] dto = dto"
| "scan_dates lib tags (key # keys) dto =
     (case map_of tags key of
        None \<Rightarrow> scan_dates lib tags keys dto
      | Some v \<Rightarrow>
          (case parse_dt_str lib v of
             Some d \<Rightarrow> Some d
           | None \<Rightarrow> scan_dates lib tags keys None))"

text \<open>
  \<open>x or None\<close> on a string, \<open>str(d.get(k) or "")\<close> on a dictionary of Pillow values, and
  the \<open>str\<close> forms of such a dictionary.
\<close>

definition or_none :: "string \<Rightarrow> string option" where
  "or_none s = (if s = [] then None else Some s)"

definition get_or_empty :: "('k \<times> pil_value) list \<Rightarrow> 'k \<Rightarrow> string" where
  "get_or_empty d k =
     (case map_of d k of
        None \<Rightarrow> []
      | Some v \<Rightarrow> if fst v then snd v else [])"

definition str_values :: "('k \<times> pil_value) list \<Rightarrow> ('k \<times> string) list" where
  "str_values d = map (\<lambda>e. (fst e, snd (snd e))) d"

definition exif_from_pillow :: "pylib \<Rightarrow> (nat, pil_value) probe \<Rightarrow> triple" where
  "exif_from_pillow lib pr =
     (case pr of
        Unavailable \<Rightarrow> (None, None, None)
      | Raises \<Rightarrow> (None, None, None)
      | Tags exif \<Rightarrow>
          if exif = [] then (None, None, None)
          else let dto = scan_dates lib (str_values exif) [36867, 306] None;
                   model = get_or_empty exif 0x0110;
                   lens = get_or_empty exif 0xA434
               in (dto, or_none model, or_none lens))"

text \<open>\<open>for key in keys: if key in tags: v = str(tags[key]).strip(); break\<close>.\<close>

fun first_present :: "('k \<times> string) list \<Rightarrow> 'k list \<Rightarrow> string option" where
  "first_present tags [] = None"
| "first_present tags (key # keys) =
     (case map_of tags key of
        Some v \<Rightarrow> Some (strip v)
      | None \<Rightarrow> first_present tags keys)"

definition opt_or_none :: "string option \<Rightarrow> string option" where
  "opt_or_none v = (case v of None \<Rightarrow> None | Some s \<Rightarrow> or_none s)"

definition exif_from_exifread :: "pylib \<Rightarrow> (string, string) probe \<Rightarrow> triple" where
  "exif_from_exifread lib pr =
     (case pr of
        Unavailable \<Rightarrow> (None, None, None)
      | Raises \<Rightarrow> (None, None, None)
      | Tags tags \<Rightarrow>
          let dto = scan_dates lib tags [''EXIF DateTimeOriginal'', ''Image DateTime''] None;
              model = first_present tags [''Image Model'', ''EXIF Model''];
              lens = first_present tags
                       [''EXIF LensModel'', ''EXIF LensSpecification'', ''EXIF LensMake'',
                        ''MakerNote LensType'']
          in (dto, opt_or_none model, opt_or_none lens))"

text \<open>\<open>a in b\<close> on strings.\<close>

fun contains :: "string \<Rightarrow> string \<Rightarrow> bool" where
  "contains a [] = (a = [])"
| "contains a (c # cs) = (prefix a (c # cs) \<or> contains a cs)"

text \<open>
  \<open>a in b\<close> on decoded JSON values; \<open>None\<close> when it raises \<open>TypeError\<close>: the right side
  is not a container, the left side of a string is not a string, or the left side of a
  dictionary cannot be hashed. The keys of a decoded dictionary are strings.
\<close>

definition py_in :: "pylib \<Rightarrow> jval \<Rightarrow> jval \<Rightarrow> bool option" where
  "py_in lib a b =
     (case b of
        JStr t \<Rightarrow> (case a of JStr s \<Rightarrow> Some (contains s t) | _ \<Rightarrow> None)
      | JArr xs \<Rightarrow> Some (list_ex (\<lambda>x. py_eq lib x a) xs)
      | JObj kvs \<Rightarrow>
          (case a of
             JStr s \<Rightarrow> Some (map_of kvs s \<noteq> None)
           | JArr _ \<Rightarrow> None
           | JObj _ \<Rightarrow> None
           | _ \<Rightarrow> Some False)
      | _ \<Rightarrow> None)"

text \<open>\<open>d.get(k) or ""\<close> and \<open>x or None\<close> on decoded JSON values.\<close>

definition get_or_empty_json :: "(string \<times> jval) list \<Rightarrow> string \<Rightarrow> jval" where
  "get_or_empty_json d k =
     (case map_of d k of
        None \<Rightarrow> JStr []
      | Some v \<Rightarrow> if py_truthy v then v else JStr [])"

definition json_or_none :: "jval \<Rightarrow> jval option" where
  "json_or_none v = (if py_truthy v then Some v else None)"

type_synonym json_triple = "datetime option \<times> jval option \<times> jval option"

text \<open>
  The values of \<open>Model\<close>, \<open>Make\<close>, \<open>LensModel\<close> and \<open>Lens\<close> are used as decoded; only
  the date goes through \<open>str\<close>. Where \<open>make not in model\<close> raises, the \<open>except\<close> clause
  returns three times \<open>None\<close>, the date included.
\<close>

definition exif_from_exiftool :: "pylib \<Rightarrow> (string, jval) probe \<Rightarrow> json_triple" where
  "exif_from_exiftool lib pr =
     (case pr of
        Unavailable \<Rightarrow> (None, None, None)
      | Raises \<Rightarrow> (None, None, None)
      | Tags data \<Rightarrow>
          let dto = (case map_of data ''DateTimeOriginal'' of
                       None \<Rightarrow> None
                     | Some v \<Rightarrow> parse_dt_str lib (str_of lib v));
              model = get_or_empty_json data ''Model'';
              make = get_or_empty_json data ''Make'';
              lens = (if py_truthy (get_or_empty_json data ''LensModel'')
                      then get_or_empty_json data ''LensModel''
                      else get_or_empty_json data ''Lens'')
          in if py_truthy make \<and> py_truthy model
             then (case py_in lib make model of
                     None \<Rightarrow> (None, None, None)
                   | Some found \<Rightarrow>
                       let model = (if found then model
                                    else JStr (str_of lib make @ '' '' @ str_of lib model))
                       in (dto, json_or_none model, json_or_none lens))
             else (dto, json_or_none model, json_or_none lens))"

text \<open>
  Everything \<open>extract_meta\<close> observes about one file: what each strategy finds, the
  modification time (\<open>None\<close> when \<open>path.stat()\<close> or the conversion raises) and the
  current time.
\<close>

record observed =
  pillow :: "(nat, pil_value) probe"
  exifread :: "(string, string) probe"
  exiftool :: "(string, jval) probe"
  st_mtime :: "datetime option"
  now :: datetime

record meta =
  path :: path
  dt :: datetime
  year :: string
  month :: string
  date :: string
  camera :: string
  lens :: string
  kind :: string

definition PROC_EXT :: "string list" where
  "PROC_EXT = [''.jpg'', ''.jpeg'', ''.heic'', ''.heif'', ''.png'']"

definition RAW_EXT :: "string list" where
  "RAW_EXT = [''.arw'', ''.cr2'', ''.cr3'', ''.nef'', ''.orf'', ''.rw2'', ''.raf'', ''.dng'',
              ''.srw'', ''.pef'', ''.tif'', ''.tiff'']"

text \<open>
  Truth value of an optional value, \<open>v or d\<close>, and a string result of Pillow or exifread
  as a value.
\<close>

definition truthy :: "jval option \<Rightarrow> bool" where
  "truthy v = (case v of None \<Rightarrow> False | Some x \<Rightarrow> py_truthy x)"

definition or_default :: "jval option \<Rightarrow> jval \<Rightarrow> jval" where
  "or_default v d = (case v of None \<Rightarrow> d | Some x \<Rightarrow> if py_truthy x then x else d)"

definition as_json :: "string option \<Rightarrow> jval option" where
  "as_json v = map_option JStr v"

text \<open>
  \<open>sanitize\<close> called on a value that need not be a string: a false value gives
  \<open>Unknown\<close> at the first test, and any other value that is not a string has no \<open>strip\<close>.
\<close>

datatype py_error = AttributeError

definition sanitize_value :: "jval \<Rightarrow> py_error + string" where
  "sanitize_value v =
     (case v of
        JStr s \<Rightarrow> Inr (sanitize s)
      | _ \<Rightarrow> if py_truthy v then Inl AttributeError else Inr ''Unknown'')"

text \<open>
  \<open>extract_meta\<close> calls \<open>sanitize\<close> outside any \<open>try\<close>, so an error there is the result of
  the call.
\<close>

definition extract_meta :: "pylib \<Rightarrow> observed \<Rightarrow> path \<Rightarrow> py_error + meta" where
  "extract_meta lib ob p =
     (let (d1, c1, l1) = exif_from_pillow lib (pillow ob);
          dto = (if d1 \<noteq> None then d1 else None);
          cam = (if truthy (as_json c1) then as_json c1 else None);
          lens = (if truthy (as_json l1) then as_json l1 else None);
          (d2, c2, l2) = exif_from_exifread lib (exifread ob);
          dto = (if dto = None \<and> d2 \<noteq> None then d2 else dto);
          cam = (if \<not> truthy cam \<and> truthy (as_json c2) then as_json c2 else cam);
          lens = (if \<not> truthy lens \<and> truthy (as_json l2) then as_json l2 else lens);
          (d3, c3, l3) = exif_from_exiftool lib (exiftool ob);
          dto = (if dto = None \<and> d3 \<noteq> None then d3 else dto);
          cam = (if \<not> truthy cam \<and> truthy c3 then c3 else cam);
          lens = (if \<not> truthy lens \<and> truthy l3 then l3 else lens);
          dto = (case dto of
                   Some d \<Rightarrow> d
                 | None \<Rightarrow> (case st_mtime ob of Some t \<Rightarrow> t | None \<Rightarrow> now ob))
      in case sanitize_value (or_default cam (JStr ''Unknown Camera'')) of
           Inl e \<Rightarrow> Inl e
         | Inr cam_name \<Rightarrow>
             (case sanitize_value (or_default lens (JStr ''Unknown Lens'')) of
                Inl e \<Rightarrow> Inl e
              | Inr lens_name \<Rightarrow>
                  let ext = lower (suffix_of p);
                      kind = (if ext \<in> set RAW_EXT then ''raw''
                              else if ext \<in> set PROC_EXT then ''jpg'' else ''other'')
                  in Inr \<lparr>path = p, dt = dto,
                          year = strftime lib dto ''%Y'',
                          month = strftime lib dto ''%Y-%m'',
                          date = strftime lib dto ''%Y-%m-%d'',
                          camera = cam_name, lens = lens_name, kind = kind\<rparr>))"

section \<open>Configuration and the placement plan\<close>

text \<open>The settings of the application that the planner and the worker read.\<close>

record app =
  dest_root :: path
  policy_var :: string
  group_by_var :: string
  hier_var :: string
  split_var :: bool
  action_var :: string
  skip_hash_var :: bool
  workers_var :: int

definition target_dir_for :: "app \<Rightarrow> meta \<Rightarrow> path" where
  "target_dir_for self m =
     (let group = (if group_by_var self = ''camera'' then camera m else lens m);
          group = sanitize group;
          base = (if hier_var self = ''device-first''
                  then joinpath (joinpath (joinpath (joinpath (dest_root self) group)
                         (year m)) (month m)) (date m)
                  else joinpath (joinpath (joinpath (joinpath (dest_root self) (year m))
                         (month m)) (date m)) group)
      in if split_var self then joinpath base (kind m) else base)"

text \<open>
  The plan is a dictionary from directory to list of sources; Python keeps the keys in
  insertion order, so it is an association list. \<open>setdefault_append\<close> is
  \<open>plan.setdefault(out_dir, []).append(src)\<close>.
\<close>

type_synonym plan = "(path \<times> path list) list"

fun setdefault_append :: "path \<Rightarrow> path \<Rightarrow> plan \<Rightarrow> plan" where
  "setdefault_append out_dir src [] = [(out_dir, [src])]"
| "setdefault_append out_dir src ((d, flist) # rest) =
     (if d = out_dir then (d, flist @ [src]) # rest
      else (d, flist) # setdefault_append out_dir src rest)"

fun build_plan :: "app \<Rightarrow> plan \<Rightarrow> meta list \<Rightarrow> plan" where
  "build_plan self pl [] = pl"
| "build_plan self pl (m # metas) =
     build_plan self (setdefault_append (target_dir_for self m) (path m) pl) metas"

text \<open>
  The worker count of the execution phase (\<open>_worker_sort\<close>) and the thread count shown in
  the preview summary (\<open>scan_preview\<close>).
\<close>

definition sort_workers :: "app \<Rightarrow> int" where
  "sort_workers self =
     (let workers = max 1 (workers_var self)
      in if policy_var self = ''ask'' \<and> workers > 1 then 1 else workers)"

definition eff_workers :: "app \<Rightarrow> int" where
  "eff_workers self =
     (let e = max 1 (workers_var self)
      in if policy_var self = ''ask'' then 1 else e)"


section \<open>The file system and unique destination names\<close>

text \<open>
  A file system is a finite table from paths to files. A file that exists may still be
  unreadable: opening it raises.
\<close>

record fnode =
  readable :: bool
  content :: string

type_synonym fsys = "(path \<times> fnode) list"

definition path_exists :: "fsys \<Rightarrow> path \<Rightarrow> bool" where
  "path_exists fs p = (map_of fs p \<noteq> None)"

text \<open>
  \<open>file_hash\<close>: the SHA-1 hex digest of the content, and the empty string when opening or
  reading the file raises.
\<close>

definition file_hash :: "pylib \<Rightarrow> fsys \<Rightarrow> path \<Rightarrow> string" where
  "file_hash lib fs p =
     (case map_of fs p of
        None \<Rightarrow> []
      | Some f \<Rightarrow> if readable f then sha1_hexdigest lib (content f) else [])"

text \<open>
  \<open>os.path.splitext\<close>: the extension starts at the last dot, provided that dot comes
  after the last separator and some character between them is not a dot.
\<close>

definition splitext :: "string \<Rightarrow> string \<times> string" where
  "splitext p =
     (let sepIndex = rfind CHR ''/'' p;
          dotIndex = rfind CHR ''.'' p
      in if dotIndex > sepIndex
            \<and> filter (\<lambda>c. c \<noteq> CHR ''.'')
                 (take (nat (dotIndex - (sepIndex + 1))) (drop (nat (sepIndex + 1)) p)) \<noteq> []
         then (take (nat dotIndex) p, drop (nat dotIndex) p)
         else (p, []))"

text \<open>The decimal form of a natural number, as \<open>f"{i}"\<close> prints it.\<close>

definition digit_char :: "nat \<Rightarrow> char" where
  "digit_char d =
     (if d = 0 then CHR ''0'' else if d = 1 then CHR ''1'' else if d = 2 then CHR ''2''
      else if d = 3 then CHR ''3'' else if d = 4 then CHR ''4'' else if d = 5 then CHR ''5''
      else if d = 6 then CHR ''6'' else if d = 7 then CHR ''7'' else if d = 8 then CHR ''8''
      else CHR ''9'')"

fun str_nat :: "nat \<Rightarrow> string" where
  "str_nat n = (if n < 10 then [digit_char n] else str_nat (n div 10) @ [digit_char (n mod 10)])"

declare str_nat.simps [simp del]

text \<open>
  The loop of \<open>unique_dest\<close> ends because the file system is finite: a candidate carries
  the digits of \<open>i\<close>, so from some \<open>i\<close> on it is longer than every existing path. The
  bound counts the characters of a path other than \<open>/\<close> and \<open>.\<close>, which joining keeps.
\<close>

definition plain :: "char \<Rightarrow> bool" where
  "plain c = (c \<noteq> CHR ''/'' \<and> c \<noteq> CHR ''.'')"

definition weight :: "path \<Rightarrow> nat" where
  "weight p = length (filter plain (concat p))"

definition fs_bound :: "fsys \<Rightarrow> nat" where
  "fs_bound fs = sum_list (map (\<lambda>e. weight (fst e)) fs)"

function unique_dest_loop :: "fsys \<Rightarrow> path \<Rightarrow> string \<Rightarrow> string \<Rightarrow> path \<Rightarrow> nat \<Rightarrow> path" where
  "unique_dest_loop fs dest_dir base ext cand i =
     (if path_exists fs cand
      then unique_dest_loop fs dest_dir base ext
             (joinpath dest_dir (base @ ''_'' @ str_nat i @ ext)) (i + 1)
      else cand)"
  by pat_completeness auto
termination
proof (relation "measure (\<lambda>(fs, dest_dir, base, ext, cand, i).
          2 * (10 ^ fs_bound fs - i) + (if path_exists fs cand then 1 else 0))")
  show "wf (measure (\<lambda>(fs, dest_dir, base, ext, cand, i).
          2 * (10 ^ fs_bound fs - i) + (if path_exists fs cand then 1 else 0)))"
    by simp
next
  fix fs :: fsys and dest_dir :: path and base ext :: string and cand :: path and i :: nat
  assume "path_exists fs cand"
  have split_plain: "filter plain (concat (split_sep w s)) = filter plain (w @ s)" for w s
    by (induction s arbitrary: w) (auto simp add: plain_def)
  have dropped: "filter plain (concat (filter (\<lambda>x. x \<noteq> [] \<and> x \<noteq> ''.'') xs))
                 = filter plain (concat xs)" for xs
    by (induction xs) (auto simp add: plain_def)
  have seg_plain: "filter plain (concat (segments s)) = filter plain s" for s
    unfolding segments_def dropped by (simp add: split_plain)
  have join_weight: "length (filter plain s) \<le> weight (joinpath d s)" for d s
    by (cases "root_of s") (simp_all add: joinpath_def weight_def seg_plain)
  have digit_plain: "plain (digit_char d)" for d
    by (simp add: plain_def digit_char_def)
  have digits_plain: "filter plain (str_nat n) = str_nat n" for n
    by (induction n rule: str_nat.induct)
       (subst (1 2) str_nat.simps, simp add: digit_plain)
  have digits_bound: "n < 10 ^ length (str_nat n)" for n
  proof (induction n rule: str_nat.induct)
    case (1 n)
    show ?case
    proof (cases "n < 10")
      case True
      then show ?thesis by (subst str_nat.simps) simp
    next
      case False
      with 1 have "n div 10 < 10 ^ length (str_nat (n div 10))" by simp
      then have "n < 10 * 10 ^ length (str_nat (n div 10))" by linarith
      with False show ?thesis by (subst str_nat.simps) simp
    qed
  qed
  have existing: "weight p \<le> fs_bound fs" if "path_exists fs p" for p
  proof -
    from that obtain f where "(p, f) \<in> set fs"
      by (auto simp add: path_exists_def dest: map_of_SomeD)
    then show ?thesis
      by (simp add: fs_bound_def member_le_sum_list image_iff rev_bexI)
  qed
  have late: "i < 10 ^ fs_bound fs"
    if "path_exists fs (joinpath dest_dir (base @ ''_'' @ str_nat i @ ext))"
  proof -
    have "length (str_nat i) \<le> length (filter plain (base @ ''_'' @ str_nat i @ ext))"
      by (simp add: digits_plain)
    also have "\<dots> \<le> weight (joinpath dest_dir (base @ ''_'' @ str_nat i @ ext))"
      by (rule join_weight)
    also have "\<dots> \<le> fs_bound fs"
      using that by (rule existing)
    finally have "(10::nat) ^ length (str_nat i) \<le> 10 ^ fs_bound fs"
      by (simp add: power_increasing)
    with digits_bound [of i] show ?thesis by linarith
  qed
  from \<open>path_exists fs cand\<close> late
  show "((fs, dest_dir, base, ext, joinpath dest_dir (base @ ''_'' @ str_nat i @ ext), i + 1),
         (fs, dest_dir, base, ext, cand, i))
        \<in> measure (\<lambda>(fs, dest_dir, base, ext, cand, i).
             2 * (10 ^ fs_bound fs - i) + (if path_exists fs cand then 1 else 0))"
    by auto
qed

declare unique_dest_loop.simps [simp del]

definition unique_dest :: "fsys \<Rightarrow> path \<Rightarrow> string \<Rightarrow> path" where
  "unique_dest fs dest_dir name =
     (let (base, ext) = splitext name
      in unique_dest_loop fs dest_dir base ext (joinpath dest_dir name) 1)"

section \<open>The execution phase\<close>

text \<open>
  What the worker cannot decide by itself: the answer of the conflict dialog, whether
  creating a directory raises, and whether \<open>os.rename\<close> from one path to another
  succeeds.
\<close>

record env =
  ask_conflict :: "path \<Rightarrow> path \<Rightarrow> string"
  mkdir_raises :: "path \<Rightarrow> bool"
  rename_ok :: "path \<Rightarrow> path \<Rightarrow> bool"

text \<open>
  A status event as put on the queue: the completed count, the total, the key of the
  translated message and the file name. Elapsed time and estimate are left out.
\<close>

datatype status = Status nat nat string string

text \<open>
  The variables shared by the calls of \<open>process\<close>, the file system they act on, and the
  list \<open>transfers\<close> of the copies and moves carried out, in order, as (source,
  destination); the program does not keep that list, it records its effects. The
  counter \<open>done\<close> of the program is \<open>done_count\<close> here, and \<open>total\<close> is \<open>tot\<close>.
\<close>

record run_state =
  fs :: fsys
  stop_flag :: bool
  done_count :: nat
  success :: nat
  skipped :: nat
  failed :: nat
  errors :: "path list"
  skipped_list :: "path list"
  ui_queue :: "status list"
  transfers :: "(path \<times> path) list"

definition initial :: "fsys \<Rightarrow> run_state" where
  "initial fs0 =
     \<lparr>fs = fs0, stop_flag = False, done_count = 0, success = 0, skipped = 0, failed = 0,
      errors = [], skipped_list = [], ui_queue = [], transfers = []\<rparr>"

text \<open>The test that guards the status updates of the skip and failure branches.\<close>

definition due :: "nat \<Rightarrow> nat \<Rightarrow> bool" where
  "due d tot = (d \<le> 10 \<or> d mod max 1 (tot div 100) = 0 \<or> d = tot)"

definition enqueue_status :: "nat \<Rightarrow> nat \<Rightarrow> string \<Rightarrow> string \<Rightarrow> run_state \<Rightarrow> run_state" where
  "enqueue_status d tot key name st = st\<lparr>ui_queue := ui_queue st @ [Status d tot key name]\<rparr>"

text \<open>The three skip branches: count the file as skipped, then report if due.\<close>

definition skip_file :: "nat \<Rightarrow> path \<Rightarrow> string \<Rightarrow> run_state \<Rightarrow> run_state" where
  "skip_file tot src key st =
     (let st = st\<lparr>skipped := skipped st + 1, done_count := done_count st + 1,
                  skipped_list := skipped_list st @ [src]\<rparr>
      in if due (done_count st) tot
         then enqueue_status (done_count st) tot key (name_of src) st else st)"

text \<open>The \<open>except\<close> branch.\<close>

definition on_exception :: "nat \<Rightarrow> path \<Rightarrow> run_state \<Rightarrow> run_state" where
  "on_exception tot src st =
     (let st = st\<lparr>failed := failed st + 1, done_count := done_count st + 1,
                  errors := errors st @ [src]\<rparr>
      in if due (done_count st) tot
         then enqueue_status (done_count st) tot ''failure_prefix'' (name_of src) st else st)"

text \<open>
  The first half of the \<open>try\<close> block, up to the copy or move: it returns early (a skip or
  a cancel), raises (the directory cannot be created), or goes on with a destination.
\<close>

datatype decision = Return run_state | Raise | Transfer path

definition resolve :: "pylib \<Rightarrow> env \<Rightarrow> app \<Rightarrow> nat \<Rightarrow> run_state \<Rightarrow> meta \<Rightarrow> decision" where
  "resolve lib env self tot st m =
     (let src = path m;
          out_dir = target_dir_for self m
      in if mkdir_raises env out_dir then Raise
         else let dst = joinpath out_dir (name_of src)
              in if path_exists (fs st) dst
                 then if skip_hash_var self
                         \<and> file_hash lib (fs st) src = file_hash lib (fs st) dst
                      then Return (skip_file tot src ''skip_same_content'' st)
                      else if policy_var self = ''rename''
                      then Transfer (unique_dest (fs st) out_dir (name_of src))
                      else if policy_var self = ''skip''
                      then Return (skip_file tot src ''skip_duplicate_name'' st)
                      else let resp = ask_conflict env src dst
                           in if resp = ''cancel'' then Return (st\<lparr>stop_flag := True\<rparr>)
                              else if resp = ''skip''
                              then Return (skip_file tot src ''skip_user'' st)
                              else Transfer (unique_dest (fs st) out_dir (name_of src))
                 else Transfer dst)"

text \<open>
  \<open>shutil.copy2\<close> and \<open>shutil.move\<close>; \<open>None\<close> when they raise. A copy needs a readable
  source. A move renames, and where renaming fails it copies and removes the source.
\<close>

definition copy2 :: "fsys \<Rightarrow> path \<Rightarrow> path \<Rightarrow> fsys option" where
  "copy2 fs0 src dst =
     (case map_of fs0 src of
        None \<Rightarrow> None
      | Some f \<Rightarrow> if readable f then Some (AList.update dst f fs0) else None)"

definition move :: "env \<Rightarrow> fsys \<Rightarrow> path \<Rightarrow> path \<Rightarrow> fsys option" where
  "move env fs0 src dst =
     (case map_of fs0 src of
        None \<Rightarrow> None
      | Some f \<Rightarrow>
          if rename_ok env src dst then Some (AList.update dst f (AList.delete src fs0))
          else (case copy2 fs0 src dst of
                  None \<Rightarrow> None
                | Some fs1 \<Rightarrow> Some (AList.delete src fs1)))"

text \<open>The second half of the \<open>try\<close> block: the copy or move, and the count of a success.\<close>

definition transfer :: "env \<Rightarrow> app \<Rightarrow> nat \<Rightarrow> path \<Rightarrow> path \<Rightarrow> run_state \<Rightarrow> run_state" where
  "transfer env self tot src dst st =
     (case (if action_var self = ''move'' then move env (fs st) src dst
            else copy2 (fs st) src dst) of
        None \<Rightarrow> on_exception tot src st
      | Some fs1 \<Rightarrow>
          let st = st\<lparr>fs := fs1, success := success st + 1, done_count := done_count st + 1,
                       transfers := transfers st @ [(src, dst)]\<rparr>
          in enqueue_status (done_count st) tot ''processed_file'' (name_of dst) st)"

definition process :: "pylib \<Rightarrow> env \<Rightarrow> app \<Rightarrow> nat \<Rightarrow> run_state \<Rightarrow> meta \<Rightarrow> run_state" where
  "process lib env self tot st m =
     (if stop_flag st then st
      else case resolve lib env self tot st m of
             Return st1 \<Rightarrow> st1
           | Raise \<Rightarrow> on_exception tot (path m) st
           | Transfer dst \<Rightarrow> transfer env self tot (path m) dst st)"

text \<open>The sequential branch of \<open>_worker_sort\<close>, taken when the worker count is 1.\<close>

fun sort_loop :: "pylib \<Rightarrow> env \<Rightarrow> app \<Rightarrow> nat \<Rightarrow> run_state \<Rightarrow> meta list \<Rightarrow> run_state" where
  "sort_loop lib env self tot st [] = st"
| "sort_loop lib env self tot st (m # metas) =
     (if stop_flag st then st
      else sort_loop lib env self tot (process lib env self tot st m) metas)"

definition worker_sort :: "pylib \<Rightarrow> env \<Rightarrow> app \<Rightarrow> fsys \<Rightarrow> meta list \<Rightarrow> run_state" where
  "worker_sort lib env self fs0 metas =
     sort_loop lib env self (length metas) (initial fs0) metas"

text \<open>
  The thread pool of the parallel branch. Each worker runs \<open>process\<close> on the next queued
  file; between the choice of the destination and the copy or move, other workers may
  run. A pool state holds the shared variables, the files not yet started and the
  (source, destination) pairs of the workers that have chosen and not yet written.
\<close>

datatype pool_move = Start | Finish nat

type_synonym pool = "run_state \<times> meta list \<times> (path \<times> path) list"

fun pool_step :: "pylib \<Rightarrow> env \<Rightarrow> app \<Rightarrow> nat \<Rightarrow> pool \<Rightarrow> pool_move \<Rightarrow> pool" where
  "pool_step lib env self tot (st, queue, inflight) Start =
     (case queue of
        [] \<Rightarrow> (st, queue, inflight)
      | m # rest \<Rightarrow>
          if int (length inflight) < sort_workers self
          then if stop_flag st then (st, rest, inflight)
               else (case resolve lib env self tot st m of
                       Return st1 \<Rightarrow> (st1, rest, inflight)
                     | Raise \<Rightarrow> (on_exception tot (path m) st, rest, inflight)
                     | Transfer dst \<Rightarrow> (st, rest, inflight @ [(path m, dst)]))
          else (st, queue, inflight))"
| "pool_step lib env self tot (st, queue, inflight) (Finish k) =
     (if k < length inflight
      then (transfer env self tot (fst (inflight ! k)) (snd (inflight ! k)) st,
            queue, take k inflight @ drop (Suc k) inflight)
      else (st, queue, inflight))"

definition pool_run :: "pylib \<Rightarrow> env \<Rightarrow> app \<Rightarrow> fsys \<Rightarrow> meta list \<Rightarrow> pool_move list \<Rightarrow> pool" where
  "pool_run lib env self fs0 metas schedule =
     foldl (pool_step lib env self (length metas)) (initial fs0, metas, []) schedule"

section \<open>The specification's notions\<close>

text \<open>
  The first non-empty value of a field across the strategies, in their order, and the
  first timestamp found.
\<close>

fun first_filled :: "jval option list \<Rightarrow> jval option" where
  "first_filled [] = None"
| "first_filled (v # vs) = (if truthy v then v else first_filled vs)"

fun first_date :: "datetime option list \<Rightarrow> datetime option" where
  "first_date [] = None"
| "first_date (d # ds) = (if d \<noteq> None then d else first_date ds)"

text \<open>
  Opening the file at a path raises: there is no file there, or it cannot be read.
\<close>

definition unreadable :: "fsys \<Rightarrow> path \<Rightarrow> bool" where
  "unreadable fs0 p = (case map_of fs0 p of None \<Rightarrow> True | Some f \<Rightarrow> \<not> readable f)"

text \<open>The destinations of the copies and moves carried out so far.\<close>

definition claimed :: "run_state \<Rightarrow> path set" where
  "claimed st = snd ` set (transfers st)"

text \<open>
  A word of \<open>split\<close>: a non-empty string without whitespace.
\<close>

definition word :: "string \<Rightarrow> bool" where
  "word w = (w \<noteq> [] \<and> list_all (\<lambda>c. \<not> isspace c) w)"

text \<open>Control characters: the code points below U+0020 and from U+007F to U+009F.\<close>

definition iscontrol :: "char \<Rightarrow> bool" where
  "iscontrol c = (let n = (of_char c :: nat) in n < 32 \<or> (127 \<le> n \<and> n \<le> 159))"

section \<open>Example data\<close>

definition lib0 :: pylib where
  "lib0 = \<lparr>strptime = (\<lambda>s f. None), strftime = (\<lambda>d f. f),
           sha1_hexdigest = (\<lambda>b. ''sha1:'' @ b), py_str = (\<lambda>v. ''value''),
           py_eq = (\<lambda>a b. a = b)\<rparr>"

definition env0 :: env where
  "env0 = \<lparr>ask_conflict = (\<lambda>s d. ''rename''), mkdir_raises = (\<lambda>d. False),
           rename_ok = (\<lambda>s d. True)\<rparr>"

definition day0 :: datetime where
  "day0 = \<lparr>dt_year = 2024, dt_month = 1, dt_day = 1, dt_hour = 0, dt_minute = 0,
            dt_second = 0, tzinfo = None\<rparr>"

definition day1 :: datetime where
  "day1 = \<lparr>dt_year = 2025, dt_month = 6, dt_day = 30, dt_hour = 12, dt_minute = 0,
            dt_second = 0, tzinfo = None\<rparr>"

definition meta0 :: "path \<Rightarrow> string \<Rightarrow> meta" where
  "meta0 p cam =
     \<lparr>path = p, dt = day0, year = ''2024'', month = ''2024-01'', date = ''2024-01-01'',
      camera = cam, lens = ''L'', kind = ''jpg''\<rparr>"

definition app0 :: "string \<Rightarrow> int \<Rightarrow> bool \<Rightarrow> app" where
  "app0 pol w h =
     \<lparr>dest_root = [''/'', ''out''], policy_var = pol, group_by_var = ''camera'',
      hier_var = ''device-first'', split_var = False, action_var = ''copy'',
      skip_hash_var = h, workers_var = w\<rparr>"

definition file0 :: "bool \<Rightarrow> string \<Rightarrow> fnode" where
  "file0 r c = \<lparr>readable = r, content = c\<rparr>"

text \<open>
  Two cards hold a file of the same name and the destination already has one: the
  setting of a rename collision.
\<close>

definition src_a :: path where "src_a = [''/'', ''sd'', ''a'', ''IMG.jpg'']"

definition src_b :: path where "src_b = [''/'', ''sd'', ''b'', ''IMG.jpg'']"

definition out_dir0 :: path where
  "out_dir0 = [''/'', ''out'', ''X'', ''2024'', ''2024-01'', ''2024-01-01'']"

definition fs_collide :: fsys where
  "fs_collide =
     [(src_a, file0 True ''aaa''), (src_b, file0 True ''bbb''),
      (out_dir0 @ [''IMG.jpg''], file0 True ''old'')]"

text \<open>The same files, none of them readable.\<close>

definition fs_locked :: fsys where
  "fs_locked =
     [(src_a, file0 False ''aaa''), (out_dir0 @ [''IMG.jpg''], file0 False ''old'')]"

text \<open>The same source beside a readable copy of itself at the destination.\<close>

definition fs_same :: fsys where
  "fs_same =
     [(src_a, file0 True ''aaa''), (out_dir0 @ [''IMG.jpg''], file0 True ''aaa'')]"

text \<open>A card of \<open>n\<close> files \<open>0.jpg\<close>, \<open>1.jpg\<close>, ... and an empty destination.\<close>

definition card_files :: "nat \<Rightarrow> path list" where
  "card_files n = map (\<lambda>i. [''/'', ''sd'', str_nat i @ ''.jpg'']) [0..<n]"

definition card_metas :: "nat \<Rightarrow> meta list" where
  "card_metas n = map (\<lambda>p. meta0 p ''X'') (card_files n)"

definition card_fs :: "nat \<Rightarrow> fsys" where
  "card_fs n = map (\<lambda>p. (p, file0 True ''x'')) (card_files n)"

text \<open>What the strategies find in three example files.\<close>

definition ob_conflict :: observed where
  "ob_conflict =
     \<lparr>pillow = Tags [(0x0110, (True, ''Canon A''))],
      exifread = Tags [(''Image Model'', ''Canon B'')],
      exiftool = Unavailable, st_mtime = Some day0, now = day1\<rparr>"

definition ob_nothing :: observed where
  "ob_nothing =
     \<lparr>pillow = Raises, exifread = Unavailable, exiftool = Tags [], st_mtime = None,
      now = day1\<rparr>"

text \<open>
  A picture of a Nokia 6300 with no tags that Pillow or exifread can read: exiftool
  prints \<open>"Model": 6300\<close>, without and with the make.
\<close>

definition ob_number :: observed where
  "ob_number =
     \<lparr>pillow = Tags [], exifread = Tags [], exiftool = Tags [(''Model'', JInt 6300)],
      st_mtime = Some day0, now = day1\<rparr>"

definition ob_number_make :: observed where
  "ob_number_make =
     \<lparr>pillow = Tags [], exifread = Tags [],
      exiftool = Tags [(''Make'', JStr ''Nokia''), (''Model'', JInt 6300),
                       (''DateTimeOriginal'', JStr ''2024:01:01 00:00:00'')],
      st_mtime = Some day0, now = day1\<rparr>"

text \<open>A picture whose model tag is a single space.\<close>

definition ob_blank :: observed where
  "ob_blank =
     \<lparr>pillow = Tags [(0x0110, (True, '' ''))], exifread = Unavailable, exiftool = Unavailable,
      st_mtime = Some day0, now = day1\<rparr>"

definition ob_files :: "meta list" where
  "ob_files =
     [meta0 src_a ''X'', meta0 src_b ''Y'', meta0 [''/'', ''sd'', ''c'', ''IMG.jpg''] ''X'']"

section \<open>Effective worker count\<close>

text \<open>
  C8. Under the policy \<open>ask\<close> the execution phase runs with one worker whatever the
  configured count is, and the thread count shown in the preview summary is 1 as well;
  under any other policy both are the configured count, raised to 1 if it is smaller.
\<close>

theorem ask_forces_one_worker:
  "(policy_var self = ''ask'' \<longrightarrow> sort_workers self = 1 \<and> eff_workers self = 1)
   \<and> (policy_var self \<noteq> ''ask'' \<longrightarrow>
        sort_workers self = max 1 (workers_var self)
        \<and> eff_workers self = max 1 (workers_var self))"
  by (auto simp add: sort_workers_def eff_workers_def Let_def)

theorem ask_forces_one_worker_witness:
  "policy_var (app0 ''ask'' 8 False) = ''ask''
   \<and> sort_workers (app0 ''ask'' 8 False) = 1 \<and> eff_workers (app0 ''ask'' 8 False) = 1
   \<and> policy_var (app0 ''rename'' 8 False) \<noteq> ''ask''
   \<and> sort_workers (app0 ''rename'' 8 False) = 8 \<and> eff_workers (app0 ''rename'' 8 False) = 8"
  using ask_forces_one_worker [of "app0 ''ask'' 8 False"]
    ask_forces_one_worker [of "app0 ''rename'' 8 False"]
  by (simp add: app0_def)

section \<open>Metadata resolution\<close>

lemma sanitize_nonempty: "sanitize s \<noteq> []"
  by (simp add: sanitize_def Let_def)

lemma not_truthy_None: "\<not> truthy None"
  by (simp add: truthy_def)

lemma or_default_not_truthy: "\<not> truthy v \<Longrightarrow> or_default v d = d"
  by (simp add: truthy_def or_default_def split: option.splits)

lemma or_default_truthy: "py_truthy d \<Longrightarrow> py_truthy (or_default v d)"
  by (simp add: or_default_def split: option.splits)

lemma fill_chain:
  "or_default
     (let x = (if truthy a then a else None);
          x = (if \<not> truthy x \<and> truthy b then b else x);
          x = (if \<not> truthy x \<and> truthy c then c else x)
      in x) d
   = or_default (first_filled [a, b, c]) d"
  by (cases "truthy a"; cases "truthy b"; cases "truthy c";
      simp add: Let_def or_default_not_truthy not_truthy_None)

lemma date_chain:
  "(let x = (if d1 \<noteq> None then d1 else None);
        x = (if x = None \<and> d2 \<noteq> None then d2 else x);
        x = (if x = None \<and> d3 \<noteq> None then d3 else x)
    in x)
   = first_date [d1, d2, d3]"
  by (cases d1; cases d2; cases d3; simp add: Let_def)

text \<open>
  The result of \<open>extract_meta\<close> in terms of what the three strategies return: the record
  of the first values found, or the error of \<open>sanitize\<close> on the chosen camera or lens.
\<close>

lemma extract_meta_result:
  assumes "exif_from_pillow lib (pillow ob) = (d1, c1, l1)"
    and "exif_from_exifread lib (exifread ob) = (d2, c2, l2)"
    and "exif_from_exiftool lib (exiftool ob) = (d3, c3, l3)"
  shows "extract_meta lib ob p =
     (let dto = (case first_date [d1, d2, d3] of
                   Some d \<Rightarrow> d
                 | None \<Rightarrow> (case st_mtime ob of Some t \<Rightarrow> t | None \<Rightarrow> now ob))
      in case sanitize_value
                (or_default (first_filled [as_json c1, as_json c2, c3]) (JStr ''Unknown Camera'')) of
           Inl e \<Rightarrow> Inl e
         | Inr cam_name \<Rightarrow>
             (case sanitize_value
                     (or_default (first_filled [as_json l1, as_json l2, l3]) (JStr ''Unknown Lens'')) of
                Inl e \<Rightarrow> Inl e
              | Inr lens_name \<Rightarrow>
                  Inr \<lparr>path = p, dt = dto,
                       year = strftime lib dto ''%Y'',
                       month = strftime lib dto ''%Y-%m'',
                       date = strftime lib dto ''%Y-%m-%d'',
                       camera = cam_name, lens = lens_name,
                       kind = (if lower (suffix_of p) \<in> set RAW_EXT then ''raw''
                               else if lower (suffix_of p) \<in> set PROC_EXT then ''jpg''
                               else ''other'')\<rparr>))"
proof -
  define cam where "cam =
     (let x = (if truthy (as_json c1) then as_json c1 else None);
          x = (if \<not> truthy x \<and> truthy (as_json c2) then as_json c2 else x);
          x = (if \<not> truthy x \<and> truthy c3 then c3 else x)
      in x)"
  define len where "len =
     (let x = (if truthy (as_json l1) then as_json l1 else None);
          x = (if \<not> truthy x \<and> truthy (as_json l2) then as_json l2 else x);
          x = (if \<not> truthy x \<and> truthy l3 then l3 else x)
      in x)"
  define tim where "tim =
     (let x = (if d1 \<noteq> None then d1 else None);
          x = (if x = None \<and> d2 \<noteq> None then d2 else x);
          x = (if x = None \<and> d3 \<noteq> None then d3 else x)
      in x)"
  have shape: "extract_meta lib ob p =
     (let dto = (case tim of
                   Some d \<Rightarrow> d
                 | None \<Rightarrow> (case st_mtime ob of Some t \<Rightarrow> t | None \<Rightarrow> now ob))
      in case sanitize_value (or_default cam (JStr ''Unknown Camera'')) of
           Inl e \<Rightarrow> Inl e
         | Inr cam_name \<Rightarrow>
             (case sanitize_value (or_default len (JStr ''Unknown Lens'')) of
                Inl e \<Rightarrow> Inl e
              | Inr lens_name \<Rightarrow>
                  Inr \<lparr>path = p, dt = dto,
                       year = strftime lib dto ''%Y'',
                       month = strftime lib dto ''%Y-%m'',
                       date = strftime lib dto ''%Y-%m-%d'',
                       camera = cam_name, lens = lens_name,
                       kind = (if lower (suffix_of p) \<in> set RAW_EXT then ''raw''
                               else if lower (suffix_of p) \<in> set PROC_EXT then ''jpg''
                               else ''other'')\<rparr>))"
    unfolding extract_meta_def cam_def len_def tim_def Let_def assms prod.case ..
  have c: "or_default cam (JStr ''Unknown Camera'')
             = or_default (first_filled [as_json c1, as_json c2, c3]) (JStr ''Unknown Camera'')"
    unfolding cam_def by (rule fill_chain)
  have l: "or_default len (JStr ''Unknown Lens'')
             = or_default (first_filled [as_json l1, as_json l2, l3]) (JStr ''Unknown Lens'')"
    unfolding len_def by (rule fill_chain)
  have t: "tim = first_date [d1, d2, d3]"
    unfolding tim_def by (rule date_chain)
  show ?thesis
    unfolding shape c l t ..
qed

lemma sanitize_value_string:
  assumes "sanitize_value v = Inr n" and "py_truthy v"
  shows "\<exists>s. v = JStr s \<and> n = sanitize s"
  using assms by (cases v) (auto simp add: sanitize_value_def)

lemma sanitize_unknown_camera: "sanitize ''Unknown Camera'' = ''Unknown Camera''"
  by code_simp

lemma sanitize_unknown_lens: "sanitize ''Unknown Lens'' = ''Unknown Lens''"
  by code_simp

lemma failed_probe_yields_nothing:
  "exif_from_pillow lib Unavailable = (None, None, None)"
  "exif_from_pillow lib Raises = (None, None, None)"
  "exif_from_exifread lib Unavailable = (None, None, None)"
  "exif_from_exifread lib Raises = (None, None, None)"
  "exif_from_exiftool lib Unavailable = (None, None, None)"
  "exif_from_exiftool lib Raises = (None, None, None)"
  by (simp_all add: exif_from_pillow_def exif_from_exifread_def exif_from_exiftool_def)

text \<open>
  What a returned record holds, in terms of what the three strategies return.
\<close>

lemma extract_meta_fields:
  assumes "exif_from_pillow lib (pillow ob) = (d1, c1, l1)"
    and "exif_from_exifread lib (exifread ob) = (d2, c2, l2)"
    and "exif_from_exiftool lib (exiftool ob) = (d3, c3, l3)"
    and "extract_meta lib ob p = Inr m"
  shows "\<exists>s. or_default (first_filled [as_json c1, as_json c2, c3]) (JStr ''Unknown Camera'') = JStr s
            \<and> camera m = sanitize s"
    and "\<exists>s. or_default (first_filled [as_json l1, as_json l2, l3]) (JStr ''Unknown Lens'') = JStr s
            \<and> lens m = sanitize s"
    and "dt m = (case first_date [d1, d2, d3] of
                   Some d \<Rightarrow> d
                 | None \<Rightarrow> (case st_mtime ob of Some t \<Rightarrow> t | None \<Rightarrow> now ob))"
proof -
  let ?c = "or_default (first_filled [as_json c1, as_json c2, c3]) (JStr ''Unknown Camera'')"
  let ?l = "or_default (first_filled [as_json l1, as_json l2, l3]) (JStr ''Unknown Lens'')"
  from extract_meta_result [OF assms(1-3), of p] assms(4)
  obtain cn ln where cn: "sanitize_value ?c = Inr cn" and ln: "sanitize_value ?l = Inr ln"
    and cam: "camera m = cn" and len: "lens m = ln"
    and tim: "dt m = (case first_date [d1, d2, d3] of
                        Some d \<Rightarrow> d
                      | None \<Rightarrow> (case st_mtime ob of Some t \<Rightarrow> t | None \<Rightarrow> now ob))"
    by (auto simp add: Let_def split: sum.splits)
  have "py_truthy ?c" and "py_truthy ?l"
    by (rule or_default_truthy, simp add: py_truthy_def)+
  with cn ln cam len
  show "\<exists>s. ?c = JStr s \<and> camera m = sanitize s" and "\<exists>s. ?l = JStr s \<and> lens m = sanitize s"
    using sanitize_value_string by blast+
  from tim show "dt m = (case first_date [d1, d2, d3] of
                            Some d \<Rightarrow> d
                          | None \<Rightarrow> (case st_mtime ob of Some t \<Rightarrow> t | None \<Rightarrow> now ob))" .
qed

text \<open>
  C5. For each of timestamp, camera and lens on its own, a record that \<open>extract_meta\<close>
  returns holds the first non-empty value among the results of Pillow, exifread and
  exiftool, in that order: a value found by an earlier strategy is never replaced by a
  later one. Camera and lens are stored sanitized. The values of exiftool need not be
  strings; the statement is about the calls that return a record.
\<close>

theorem extract_meta_precedence:
  assumes "exif_from_pillow lib (pillow ob) = (d1, c1, l1)"
    and "exif_from_exifread lib (exifread ob) = (d2, c2, l2)"
    and "exif_from_exiftool lib (exiftool ob) = (d3, c3, l3)"
    and "extract_meta lib ob p = Inr m"
  shows "(\<exists>s. or_default (first_filled [as_json c1, as_json c2, c3]) (JStr ''Unknown Camera'')
               = JStr s
             \<and> camera m = sanitize s)
       \<and> (\<exists>s. or_default (first_filled [as_json l1, as_json l2, l3]) (JStr ''Unknown Lens'')
               = JStr s
             \<and> lens m = sanitize s)
       \<and> dt m = (case first_date [d1, d2, d3] of
                    Some d \<Rightarrow> d
                  | None \<Rightarrow> (case st_mtime ob of Some t \<Rightarrow> t | None \<Rightarrow> now ob))"
  using extract_meta_fields [OF assms] by blast

theorem extract_meta_precedence_witness:
  "exif_from_pillow lib0 (pillow ob_conflict) = (None, Some ''Canon A'', None)
   \<and> exif_from_exifread lib0 (exifread ob_conflict) = (None, Some ''Canon B'', None)
   \<and> exif_from_exiftool lib0 (exiftool ob_conflict) = (None, None, None)
   \<and> (\<exists>m. extract_meta lib0 ob_conflict src_a = Inr m
          \<and> camera m = ''Canon A'' \<and> lens m = ''Unknown Lens'' \<and> dt m = day0)"
proof -
  have h1: "exif_from_pillow lib0 (pillow ob_conflict) = (None, Some ''Canon A'', None)"
    by (simp add: ob_conflict_def exif_from_pillow_def get_or_empty_def or_none_def
          str_values_def)
  have h2: "exif_from_exifread lib0 (exifread ob_conflict) = (None, Some ''Canon B'', None)"
    by code_simp
  have h3: "exif_from_exiftool lib0 (exiftool ob_conflict) = (None, None, None)"
    by code_simp
  have s: "sanitize ''Canon A'' = ''Canon A''"
    by code_simp
  from extract_meta_result [OF h1 h2 h3, of src_a]
  obtain m where m: "extract_meta lib0 ob_conflict src_a = Inr m"
    by (simp add: Let_def as_json_def truthy_def py_truthy_def or_default_def
          sanitize_value_def)
  from extract_meta_precedence [OF h1 h2 h3 m] s
  have "camera m = ''Canon A'' \<and> lens m = ''Unknown Lens'' \<and> dt m = day0"
    by (simp add: as_json_def truthy_def py_truthy_def or_default_def sanitize_unknown_lens
          ob_conflict_def)
  with h1 h2 h3 m show ?thesis by blast
qed

text \<open>
  A returned record has a non-empty camera and lens; and where no strategy yields
  anything, a record is returned, with the two placeholders and the modification time,
  or the current time when that cannot be read.
\<close>

lemma extract_meta_record_nonempty:
  assumes "extract_meta lib ob p = Inr m"
  shows "camera m \<noteq> [] \<and> lens m \<noteq> []"
proof -
  obtain d1 c1 l1 where p1: "exif_from_pillow lib (pillow ob) = (d1, c1, l1)"
    by (cases "exif_from_pillow lib (pillow ob)") auto
  obtain d2 c2 l2 where p2: "exif_from_exifread lib (exifread ob) = (d2, c2, l2)"
    by (cases "exif_from_exifread lib (exifread ob)") auto
  obtain d3 c3 l3 where p3: "exif_from_exiftool lib (exiftool ob) = (d3, c3, l3)"
    by (cases "exif_from_exiftool lib (exiftool ob)") auto
  from extract_meta_fields(1,2) [OF p1 p2 p3 assms] show ?thesis
    by (metis sanitize_nonempty)
qed

lemma extract_meta_nothing_found:
  assumes "exif_from_pillow lib (pillow ob) = (None, None, None)"
    and "exif_from_exifread lib (exifread ob) = (None, None, None)"
    and "exif_from_exiftool lib (exiftool ob) = (None, None, None)"
  shows "\<exists>m. extract_meta lib ob p = Inr m
            \<and> camera m = ''Unknown Camera'' \<and> lens m = ''Unknown Lens''
            \<and> dt m = (case st_mtime ob of Some t \<Rightarrow> t | None \<Rightarrow> now ob)"
  using extract_meta_result [OF assms, of p]
  by (simp add: Let_def as_json_def not_truthy_None or_default_def sanitize_value_def
        sanitize_unknown_camera sanitize_unknown_lens)

lemma extract_meta_nothing_found_example:
  "\<exists>m. extract_meta lib0 ob_nothing src_a = Inr m
       \<and> camera m = ''Unknown Camera'' \<and> lens m = ''Unknown Lens'' \<and> dt m = day1"
proof -
  have h1: "exif_from_pillow lib0 (pillow ob_nothing) = (None, None, None)"
    by code_simp
  have h2: "exif_from_exifread lib0 (exifread ob_nothing) = (None, None, None)"
    by code_simp
  have h3: "exif_from_exiftool lib0 (exiftool ob_nothing) = (None, None, None)"
    by code_simp
  from extract_meta_nothing_found [OF h1 h2 h3, of src_a] show ?thesis
    by (simp add: ob_nothing_def)
qed

text \<open>
  With the make beside it, a numeric model makes \<open>make not in model\<close> raise inside the
  strategy, which then yields nothing, the date included, and a record is returned.
\<close>

lemma exiftool_number_with_make:
  "exif_from_exiftool lib0 (exiftool ob_number_make) = (None, None, None)"
  by (simp add: ob_number_make_def exif_from_exiftool_def get_or_empty_json_def py_truthy_def
        py_in_def Let_def)

lemma sanitize_value_raises:
  "py_truthy v \<Longrightarrow> (sanitize_value v = Inl AttributeError) = (\<forall>s. v \<noteq> JStr s)"
  by (cases v) (simp_all add: sanitize_value_def)

lemma extract_meta_raises_iff:
  assumes "exif_from_pillow lib (pillow ob) = (d1, c1, l1)"
    and "exif_from_exifread lib (exifread ob) = (d2, c2, l2)"
    and "exif_from_exiftool lib (exiftool ob) = (d3, c3, l3)"
  shows "(extract_meta lib ob p = Inl AttributeError)
       = ((\<forall>s. or_default (first_filled [as_json c1, as_json c2, c3]) (JStr ''Unknown Camera'')
                 \<noteq> JStr s)
          \<or> (\<forall>s. or_default (first_filled [as_json l1, as_json l2, l3]) (JStr ''Unknown Lens'')
                 \<noteq> JStr s))"
proof -
  let ?c = "or_default (first_filled [as_json c1, as_json c2, c3]) (JStr ''Unknown Camera'')"
  let ?l = "or_default (first_filled [as_json l1, as_json l2, l3]) (JStr ''Unknown Lens'')"
  have tc: "py_truthy ?c" and tl: "py_truthy ?l"
    by (rule or_default_truthy, simp add: py_truthy_def)+
  have c: "(sanitize_value ?c = Inl AttributeError) = (\<forall>s. ?c \<noteq> JStr s)"
    using tc by (rule sanitize_value_raises)
  have l: "(sanitize_value ?l = Inl AttributeError) = (\<forall>s. ?l \<noteq> JStr s)"
    using tl by (rule sanitize_value_raises)
  show ?thesis
  proof (cases "sanitize_value ?c")
    case (Inl e)
    then have "sanitize_value ?c = Inl AttributeError"
      by (cases e) simp
    with extract_meta_result [OF assms, of p] c show ?thesis
      by (simp add: Let_def)
  next
    case cn: (Inr n)
    with c have cs: "\<not> (\<forall>s. ?c \<noteq> JStr s)"
      by simp
    show ?thesis
    proof (cases "sanitize_value ?l")
      case (Inl e)
      then have "sanitize_value ?l = Inl AttributeError"
        by (cases e) simp
      with extract_meta_result [OF assms, of p] cn l show ?thesis
        by (simp add: Let_def)
    next
      case (Inr k)
      with l have "\<not> (\<forall>s. ?l \<noteq> JStr s)"
        by simp
      with extract_meta_result [OF assms, of p] cn Inr cs show ?thesis
        by (simp add: Let_def)
    qed
  qed
qed

lemma blank_model_gives_unknown:
  "\<exists>m. extract_meta lib0 ob_blank src_a = Inr m \<and> camera m = ''Unknown''"
proof -
  have h1: "exif_from_pillow lib0 (pillow ob_blank) = (None, Some '' '', None)"
    by (simp add: ob_blank_def exif_from_pillow_def get_or_empty_def or_none_def
          str_values_def)
  have h2: "exif_from_exifread lib0 (exifread ob_blank) = (None, None, None)"
    by (simp add: ob_blank_def exif_from_exifread_def)
  have h3: "exif_from_exiftool lib0 (exiftool ob_blank) = (None, None, None)"
    by (simp add: ob_blank_def exif_from_exiftool_def)
  have s: "sanitize '' '' = ''Unknown''"
    by code_simp
  from extract_meta_result [OF h1 h2 h3, of src_a] s show ?thesis
    by (simp add: Let_def as_json_def truthy_def py_truthy_def or_default_def
          sanitize_value_def sanitize_unknown_lens)
qed

text \<open>
  C6. The claim is that \<open>extract_meta\<close> returns a record for every file. Where the
  strategies yield nothing it does (\<open>extract_meta_nothing_found\<close>), and a returned record
  has a non-empty camera and lens (\<open>extract_meta_record_nonempty\<close>). But exiftool prints a
  model such as 6300 as a number, the strategy passes it on as it is, and \<open>sanitize\<close>,
  called outside any \<open>try\<close>, raises on it: the call returns no record. It raises exactly
  when the camera or the lens chosen is not a string (\<open>extract_meta_raises_iff\<close>).
\<close>

theorem extract_meta_raises_on_number:
  "exif_from_pillow lib0 (pillow ob_number) = (None, None, None)
   \<and> exif_from_exifread lib0 (exifread ob_number) = (None, None, None)
   \<and> exif_from_exiftool lib0 (exiftool ob_number) = (None, Some (JInt 6300), None)
   \<and> extract_meta lib0 ob_number src_a = Inl AttributeError"
proof -
  have h1: "exif_from_pillow lib0 (pillow ob_number) = (None, None, None)"
    by (simp add: ob_number_def exif_from_pillow_def)
  have h2: "exif_from_exifread lib0 (exifread ob_number) = (None, None, None)"
    by (simp add: ob_number_def exif_from_exifread_def opt_or_none_def)
  have h3: "exif_from_exiftool lib0 (exiftool ob_number) = (None, Some (JInt 6300), None)"
    by (simp add: ob_number_def exif_from_exiftool_def get_or_empty_json_def py_truthy_def
          json_or_none_def Let_def)
  from extract_meta_result [OF h1 h2 h3, of src_a]
  have "extract_meta lib0 ob_number src_a = Inl AttributeError"
    by (simp add: Let_def as_json_def truthy_def py_truthy_def or_default_def
          sanitize_value_def)
  with h1 h2 h3 show ?thesis by blast
qed

section \<open>The placement plan\<close>

lemma keys_setdefault_append:
  "map fst (setdefault_append k v pl)
     = (if k \<in> set (map fst pl) then map fst pl else map fst pl @ [k])"
  by (induction pl) (force+)

lemma mset_setdefault_append:
  "mset (concat (map snd (setdefault_append k v pl))) = add_mset v (mset (concat (map snd pl)))"
  by (induction pl) auto

lemma setdefault_append_files:
  "\<exists>fl. (k, fl) \<in> set (setdefault_append k v pl) \<and> v \<in> set fl"
  by (induction pl) (fastforce+)

lemma setdefault_append_keeps:
  "(d, fl) \<in> set pl \<Longrightarrow> x \<in> set fl
   \<Longrightarrow> \<exists>fl'. (d, fl') \<in> set (setdefault_append k v pl) \<and> x \<in> set fl'"
  by (induction pl) (fastforce+)

lemma build_plan_keys:
  "distinct (map fst pl) \<Longrightarrow> distinct (map fst (build_plan self pl metas))"
  by (induction metas arbitrary: pl) (simp_all add: keys_setdefault_append)

lemma build_plan_mset:
  "mset (concat (map snd (build_plan self pl metas)))
     = mset (concat (map snd pl)) + mset (map path metas)"
  by (induction metas arbitrary: pl) (simp_all add: mset_setdefault_append)

lemma build_plan_keeps:
  "(d, fl) \<in> set pl \<Longrightarrow> x \<in> set fl
   \<Longrightarrow> \<exists>fl'. (d, fl') \<in> set (build_plan self pl metas) \<and> x \<in> set fl'"
proof (induction metas arbitrary: pl fl)
  case Nil
  then show ?case by auto
next
  case (Cons m metas)
  from setdefault_append_keeps [OF Cons.prems]
  obtain fl' where "(d, fl') \<in> set (setdefault_append (target_dir_for self m) (path m) pl)"
    and "x \<in> set fl'"
    by blast
  then show ?case using Cons.IH by simp
qed

lemma build_plan_files:
  "m \<in> set metas
   \<Longrightarrow> \<exists>fl. (target_dir_for self m, fl) \<in> set (build_plan self pl metas) \<and> path m \<in> set fl"
proof (induction metas arbitrary: pl)
  case Nil
  then show ?case by simp
next
  case (Cons a metas)
  show ?case
  proof (cases "m = a")
    case True
    obtain fl where "(target_dir_for self m, fl)
          \<in> set (setdefault_append (target_dir_for self m) (path m) pl)"
      and "path m \<in> set fl"
      using setdefault_append_files by blast
    then show ?thesis using True build_plan_keeps by simp
  next
    case False
    then show ?thesis using Cons by simp
  qed
qed

text \<open>
  C7. The plan partitions its input: its directories are pairwise different, the files
  of all its buckets together are the input files with the same multiplicities, every
  input file is in the bucket of its own target directory, and when the input files are
  pairwise different no file is in two buckets or twice in one.
\<close>

theorem plan_partitions_input:
  "distinct (map fst (build_plan self [] metas))
   \<and> mset (concat (map snd (build_plan self [] metas))) = mset (map path metas)
   \<and> (\<forall>m \<in> set metas. \<exists>fl. (target_dir_for self m, fl) \<in> set (build_plan self [] metas)
                              \<and> path m \<in> set fl)
   \<and> (distinct (map path metas) \<longrightarrow> distinct (concat (map snd (build_plan self [] metas))))"
proof -
  have k: "distinct (map fst (build_plan self [] metas))"
    by (rule build_plan_keys) simp
  have m: "mset (concat (map snd (build_plan self [] metas))) = mset (map path metas)"
    by (simp add: build_plan_mset)
  have f: "\<forall>m \<in> set metas. \<exists>fl. (target_dir_for self m, fl) \<in> set (build_plan self [] metas)
                               \<and> path m \<in> set fl"
    using build_plan_files by blast
  have d: "distinct (map path metas) \<longrightarrow> distinct (concat (map snd (build_plan self [] metas)))"
    using m by (metis distinct_count_atmost_1 set_mset_mset)
  from k m f d show ?thesis by blast
qed

lemma plan_example:
  "build_plan (app0 ''rename'' 1 False) [] ob_files
     = [([''/'', ''out'', ''X'', ''2024'', ''2024-01'', ''2024-01-01''],
          [src_a, [''/'', ''sd'', ''c'', ''IMG.jpg'']]),
        ([''/'', ''out'', ''Y'', ''2024'', ''2024-01'', ''2024-01-01''], [src_b])]"
  by code_simp

theorem plan_partitions_input_witness:
  "distinct (map path ob_files)
   \<and> ob_files \<noteq> []
   \<and> distinct (concat (map snd (build_plan (app0 ''rename'' 1 False) [] ob_files)))
   \<and> mset (concat (map snd (build_plan (app0 ''rename'' 1 False) [] ob_files)))
       = mset (map path ob_files)
   \<and> length (build_plan (app0 ''rename'' 1 False) [] ob_files) = 2"
proof -
  have h: "distinct (map path ob_files)"
    by code_simp
  have n: "ob_files \<noteq> []"
    by (simp add: ob_files_def)
  have l: "length (build_plan (app0 ''rename'' 1 False) [] ob_files) = 2"
    by (simp add: plan_example)
  from plan_partitions_input [of "app0 ''rename'' 1 False" ob_files] h n l
  show ?thesis by blast
qed

section \<open>Skipping files of identical content\<close>

lemma target_dir_for_policy:
  "target_dir_for (self\<lparr>policy_var := pol\<rparr>) m = target_dir_for self m"
  by (simp add: target_dir_for_def Let_def)

lemma process_hash_skip:
  assumes "\<not> stop_flag st"
    and "\<not> mkdir_raises env (target_dir_for self m)"
    and "skip_hash_var self"
    and "path_exists (fs st) (joinpath (target_dir_for self m) (name_of (path m)))"
    and "file_hash lib (fs st) (path m)
           = file_hash lib (fs st) (joinpath (target_dir_for self m) (name_of (path m)))"
  shows "process lib env self tot st m = skip_file tot (path m) ''skip_same_content'' st"
  using assms by (simp add: process_def resolve_def Let_def)

lemma skip_file_fields:
  "fs (skip_file tot src key st) = fs st"
  "transfers (skip_file tot src key st) = transfers st"
  "stop_flag (skip_file tot src key st) = stop_flag st"
  "success (skip_file tot src key st) = success st"
  "failed (skip_file tot src key st) = failed st"
  "errors (skip_file tot src key st) = errors st"
  "skipped (skip_file tot src key st) = skipped st + 1"
  "done_count (skip_file tot src key st) = done_count st + 1"
  "skipped_list (skip_file tot src key st) = skipped_list st @ [src]"
  "ui_queue (skip_file tot src key st)
     = (if due (done_count st + 1) tot
        then ui_queue st @ [Status (done_count st + 1) tot key (name_of src)]
        else ui_queue st)"
  by (simp_all add: skip_file_def enqueue_status_def Let_def)

lemma file_hash_unreadable: "unreadable fs0 p \<Longrightarrow> file_hash lib fs0 p = []"
  by (simp add: unreadable_def file_hash_def split: option.splits)

text \<open>
  C9. With hash-based skip on, a file that is processed, whose destination exists and
  whose digest equals that of the destination, is counted as skipped with the message
  for identical content; the file system is left as it was, nothing is copied or moved,
  and the outcome is the same under every duplicate policy.
\<close>

theorem hash_skip_leaves_destination:
  assumes "\<not> stop_flag st"
    and "\<not> mkdir_raises env (target_dir_for self m)"
    and "skip_hash_var self"
    and "path_exists (fs st) (joinpath (target_dir_for self m) (name_of (path m)))"
    and "file_hash lib (fs st) (path m)
           = file_hash lib (fs st) (joinpath (target_dir_for self m) (name_of (path m)))"
  shows "fs (process lib env self tot st m) = fs st
       \<and> transfers (process lib env self tot st m) = transfers st
       \<and> success (process lib env self tot st m) = success st
       \<and> failed (process lib env self tot st m) = failed st
       \<and> skipped (process lib env self tot st m) = skipped st + 1
       \<and> done_count (process lib env self tot st m) = done_count st + 1
       \<and> skipped_list (process lib env self tot st m) = skipped_list st @ [path m]
       \<and> ui_queue (process lib env self tot st m)
           = (if due (done_count st + 1) tot
              then ui_queue st
                   @ [Status (done_count st + 1) tot ''skip_same_content'' (name_of (path m))]
              else ui_queue st)
       \<and> process lib env (self\<lparr>policy_var := pol\<rparr>) tot st m = process lib env self tot st m"
proof -
  have here: "process lib env self tot st m = skip_file tot (path m) ''skip_same_content'' st"
    using assms by (rule process_hash_skip)
  have there: "process lib env (self\<lparr>policy_var := pol\<rparr>) tot st m
                 = skip_file tot (path m) ''skip_same_content'' st"
    using assms by (intro process_hash_skip) (simp_all add: target_dir_for_policy)
  from here there show ?thesis
    by (simp add: skip_file_fields)
qed

theorem hash_skip_leaves_destination_witness:
  "\<not> stop_flag (initial fs_same)
   \<and> \<not> mkdir_raises env0 (target_dir_for (app0 ''rename'' 4 True) (meta0 src_a ''X''))
   \<and> skip_hash_var (app0 ''rename'' 4 True)
   \<and> path_exists (fs (initial fs_same)) (out_dir0 @ [''IMG.jpg''])
   \<and> file_hash lib0 (fs (initial fs_same)) src_a = ''sha1:aaa''
   \<and> file_hash lib0 (fs (initial fs_same)) (out_dir0 @ [''IMG.jpg'']) = ''sha1:aaa''
   \<and> fs (process lib0 env0 (app0 ''rename'' 4 True) 1 (initial fs_same) (meta0 src_a ''X''))
       = fs_same
   \<and> skipped (process lib0 env0 (app0 ''rename'' 4 True) 1 (initial fs_same) (meta0 src_a ''X''))
       = 1
   \<and> ui_queue (process lib0 env0 (app0 ''rename'' 4 True) 1 (initial fs_same) (meta0 src_a ''X''))
       = [Status 1 1 ''skip_same_content'' ''IMG.jpg'']"
proof -
  have d: "joinpath (target_dir_for (app0 ''rename'' 4 True) (meta0 src_a ''X''))
             (name_of (path (meta0 src_a ''X''))) = out_dir0 @ [''IMG.jpg'']"
    by code_simp
  have h1: "\<not> stop_flag (initial fs_same)"
    by (simp add: initial_def)
  have h2: "\<not> mkdir_raises env0 (target_dir_for (app0 ''rename'' 4 True) (meta0 src_a ''X''))"
    by (simp add: env0_def)
  have h3: "skip_hash_var (app0 ''rename'' 4 True)"
    by (simp add: app0_def)
  have h4: "path_exists (fs (initial fs_same)) (out_dir0 @ [''IMG.jpg''])"
    by code_simp
  have h5: "file_hash lib0 (fs (initial fs_same)) src_a = ''sha1:aaa''"
    by code_simp
  have h6: "file_hash lib0 (fs (initial fs_same)) (out_dir0 @ [''IMG.jpg'']) = ''sha1:aaa''"
    by code_simp
  have p: "path (meta0 src_a ''X'') = src_a"
    by (simp add: meta0_def)
  have n: "name_of src_a = ''IMG.jpg''"
    by code_simp
  have due1: "due 1 1"
    by (simp add: due_def)
  from hash_skip_leaves_destination
         [of "initial fs_same" env0 "app0 ''rename'' 4 True" "meta0 src_a ''X''" lib0 1 "''ask''"]
       d h1 h2 h3 h4 h5 h6 p n due1
  show ?thesis
    by (simp add: initial_def)
qed

text \<open>
  C10. \<open>file_hash\<close> is the empty string whenever the file cannot be opened and read. So
  with hash-based skip on, a file whose destination exists is skipped as identical
  content when neither it nor the destination is readable, whatever the two files hold.
\<close>

theorem unreadable_pair_is_skipped:
  assumes "\<not> stop_flag st"
    and "\<not> mkdir_raises env (target_dir_for self m)"
    and "skip_hash_var self"
    and "path_exists (fs st) (joinpath (target_dir_for self m) (name_of (path m)))"
    and "unreadable (fs st) (path m)"
    and "unreadable (fs st) (joinpath (target_dir_for self m) (name_of (path m)))"
  shows "file_hash lib (fs st) (path m) = []
       \<and> file_hash lib (fs st) (joinpath (target_dir_for self m) (name_of (path m))) = []
       \<and> process lib env self tot st m = skip_file tot (path m) ''skip_same_content'' st
       \<and> fs (process lib env self tot st m) = fs st
       \<and> skipped (process lib env self tot st m) = skipped st + 1"
proof -
  have a: "file_hash lib (fs st) (path m) = []"
    using assms(5) by (rule file_hash_unreadable)
  have b: "file_hash lib (fs st) (joinpath (target_dir_for self m) (name_of (path m))) = []"
    using assms(6) by (rule file_hash_unreadable)
  have c: "process lib env self tot st m = skip_file tot (path m) ''skip_same_content'' st"
    using assms(1-4) a b by (intro process_hash_skip) simp_all
  from a b c show ?thesis
    by (simp add: skip_file_fields)
qed

theorem unreadable_pair_is_skipped_witness:
  "\<not> stop_flag (initial fs_locked)
   \<and> \<not> mkdir_raises env0 (target_dir_for (app0 ''rename'' 1 True) (meta0 src_a ''X''))
   \<and> skip_hash_var (app0 ''rename'' 1 True)
   \<and> path_exists (fs (initial fs_locked)) (out_dir0 @ [''IMG.jpg''])
   \<and> unreadable (fs (initial fs_locked)) src_a
   \<and> unreadable (fs (initial fs_locked)) (out_dir0 @ [''IMG.jpg''])
   \<and> map_of fs_locked src_a = Some (file0 False ''aaa'')
   \<and> map_of fs_locked (out_dir0 @ [''IMG.jpg'']) = Some (file0 False ''old'')
   \<and> skipped (process lib0 env0 (app0 ''rename'' 1 True) 1 (initial fs_locked)
        (meta0 src_a ''X'')) = 1
   \<and> fs (process lib0 env0 (app0 ''rename'' 1 True) 1 (initial fs_locked)
        (meta0 src_a ''X'')) = fs_locked"
proof -
  have d: "joinpath (target_dir_for (app0 ''rename'' 1 True) (meta0 src_a ''X''))
             (name_of (path (meta0 src_a ''X''))) = out_dir0 @ [''IMG.jpg'']"
    by code_simp
  have h1: "\<not> stop_flag (initial fs_locked)"
    by (simp add: initial_def)
  have h2: "\<not> mkdir_raises env0 (target_dir_for (app0 ''rename'' 1 True) (meta0 src_a ''X''))"
    by (simp add: env0_def)
  have h3: "skip_hash_var (app0 ''rename'' 1 True)"
    by (simp add: app0_def)
  have h4: "path_exists (fs (initial fs_locked)) (out_dir0 @ [''IMG.jpg''])"
    by code_simp
  have h5: "unreadable (fs (initial fs_locked)) src_a"
    by code_simp
  have h6: "unreadable (fs (initial fs_locked)) (out_dir0 @ [''IMG.jpg''])"
    by code_simp
  have c1: "map_of fs_locked src_a = Some (file0 False ''aaa'')"
    by code_simp
  have c2: "map_of fs_locked (out_dir0 @ [''IMG.jpg'']) = Some (file0 False ''old'')"
    by code_simp
  have p: "path (meta0 src_a ''X'') = src_a"
    by (simp add: meta0_def)
  from unreadable_pair_is_skipped
         [of "initial fs_locked" env0 "app0 ''rename'' 1 True" "meta0 src_a ''X''" lib0 1]
       d h1 h2 h3 h4 h5 h6 c1 c2 p
  show ?thesis
    by (simp add: initial_def skip_file_fields)
qed

section \<open>The sanitizer\<close>

lemma set_split_from: "\<Union> (set ` set (split_from w s)) \<subseteq> set w \<union> set s"
proof (induction s arbitrary: w)
  case Nil
  then show ?case by simp
next
  case (Cons c cs)
  from Cons [of "[]"] Cons [of "w @ [c]"] show ?case by auto
qed

lemma set_join_space: "set (join_space ws) \<subseteq> insert CHR '' '' (\<Union> (set ` set ws))"
  by (induction ws rule: join_space.induct) auto

lemma kept_safe_char: "isalnum (safe_char c) \<or> safe_char c \<in> set '' ._-()+[]#/''"
  by (simp add: safe_char_def)

lemma kept_unknown: "c \<in> set ''Unknown'' \<Longrightarrow> isalnum c"
  by (auto simp add: isalnum_def)

lemma sanitize_alphabet:
  assumes "c \<in> set (sanitize x)"
  shows "isalnum c \<or> c \<in> set '' ._-()+[]#/''"
proof -
  let ?s = "join_space (split (map safe_char (strip x)))"
  have body: "isalnum d \<or> d \<in> set '' ._-()+[]#/''" if "d \<in> set ?s" for d
  proof -
    from that set_join_space
    have "d = CHR '' '' \<or> d \<in> \<Union> (set ` set (split (map safe_char (strip x))))"
      by blast
    then show ?thesis
    proof
      assume "d = CHR '' ''"
      then show ?thesis by simp
    next
      assume "d \<in> \<Union> (set ` set (split (map safe_char (strip x))))"
      with set_split_from [of "[]" "map safe_char (strip x)"]
      have "d \<in> set (map safe_char (strip x))"
        unfolding split_def by auto
      then obtain e where "d = safe_char e" by auto
      then show ?thesis using kept_safe_char by simp
    qed
  qed
  from assms have "c \<in> set ''Unknown'' \<or> c \<in> set ?s"
    by (auto simp add: sanitize_def Let_def split: if_splits dest: in_set_takeD)
  then show ?thesis
    using kept_unknown body by blast
qed

lemma alnum_not_control:
  assumes "isalnum c"
  shows "\<not> iscontrol c \<and> c \<noteq> CHR 0x5C"
proof -
  define n where "n = (of_char c :: nat)"
  from assms have r: "(48 \<le> n \<and> n \<le> 57) \<or> (65 \<le> n \<and> n \<le> 90) \<or> (97 \<le> n \<and> n \<le> 122) \<or> 170 \<le> n"
    unfolding isalnum_def Let_def n_def by linarith
  then have "\<not> (n < 32 \<or> (127 \<le> n \<and> n \<le> 159))" and "n \<noteq> 92"
    by linarith+
  moreover have "of_char (CHR 0x5C) = (92::nat)"
    by simp
  ultimately show ?thesis
    unfolding iscontrol_def Let_def n_def by auto
qed

lemma punctuation_not_control:
  "c \<in> set '' ._-()+[]#/'' \<Longrightarrow> \<not> iscontrol c \<and> c \<noteq> CHR 0x5C"
  by (auto simp add: iscontrol_def)

lemma sanitize_no_backslash_no_control:
  "c \<in> set (sanitize x) \<Longrightarrow> \<not> iscontrol c \<and> c \<noteq> CHR 0x5C"
  using sanitize_alphabet alnum_not_control punctuation_not_control by blast

text \<open>
  C1. The claim is that no output of \<open>sanitize\<close> holds a path separator or a control
  character. No output holds a backslash or a control character
  (\<open>sanitize_no_backslash_no_control\<close>), but \<open>/\<close> is among the characters that are
  kept: a lens name with an aperture passes unchanged, and joined to the destination
  root it gives two directories, one inside the other.
\<close>

theorem sanitize_keeps_slash:
  "sanitize ''50mm f/1.8'' = ''50mm f/1.8''
   \<and> CHR ''/'' \<in> set (sanitize ''50mm f/1.8'')
   \<and> joinpath [''/'', ''out''] (sanitize ''50mm f/1.8'') = [''/'', ''out'', ''50mm f'', ''1.8'']"
  by code_simp

lemma split_from_words:
  "list_all (\<lambda>c. \<not> isspace c) w \<Longrightarrow> list_all word (split_from w s)"
proof (induction s arbitrary: w)
  case Nil
  then show ?case by (simp add: word_def)
next
  case (Cons c cs)
  from Cons.prems Cons.IH [of "[]"] Cons.IH [of "w @ [c]"] show ?case
    by (simp add: word_def)
qed

lemma split_from_prefix:
  "list_all (\<lambda>c. \<not> isspace c) v \<Longrightarrow> split_from w (v @ s) = split_from (w @ v) s"
  by (induction v arbitrary: w) simp_all

lemma isspace_space: "isspace CHR '' ''"
  by (simp add: isspace_def)

lemma split_join_space: "list_all word ws \<Longrightarrow> split (join_space ws) = ws"
proof (induction ws rule: join_space.induct)
  case 1
  then show ?case by (simp add: split_def)
next
  case (2 w)
  then have "split_from [] (w @ []) = split_from ([] @ w) []"
    by (intro split_from_prefix) (simp add: word_def)
  with 2 show ?case by (simp add: split_def word_def)
next
  case (3 w v ws)
  then have ww: "word w" and rest: "list_all word (v # ws)"
    by simp_all
  from ww have w: "w \<noteq> []" "list_all (\<lambda>c. \<not> isspace c) w"
    by (simp_all add: word_def)
  have "split_from [] (w @ CHR '' '' # join_space (v # ws))
          = split_from ([] @ w) (CHR '' '' # join_space (v # ws))"
    using w(2) by (rule split_from_prefix)
  also have "\<dots> = w # split_from [] (join_space (v # ws))"
    using w(1) by (simp add: isspace_space)
  also have "\<dots> = w # v # ws"
    using 3(1) [OF rest] by (simp add: split_def)
  finally show ?case by (simp add: split_def)
qed

lemma join_space_ends:
  "list_all word ws \<Longrightarrow> ws \<noteq> []
   \<Longrightarrow> join_space ws \<noteq> [] \<and> \<not> isspace (hd (join_space ws)) \<and> \<not> isspace (last (join_space ws))"
proof (induction ws rule: join_space.induct)
  case 1
  then show ?case by simp
next
  case (2 w)
  then show ?case
    by (cases w) (auto simp add: word_def list_all_iff)
next
  case (3 w v ws)
  then have "join_space (v # ws) \<noteq> []" and "\<not> isspace (last (join_space (v # ws)))"
    by simp_all
  moreover from 3 have "w \<noteq> []" and "\<not> isspace (hd w)"
    by (cases w; simp add: word_def)+
  ultimately show ?case by simp
qed

lemma strip_fixed:
  assumes "s \<noteq> []" and "\<not> isspace (hd s)" and "\<not> isspace (last s)"
  shows "strip s = s"
proof -
  have front: "dropWhile isspace s = s"
    using assms(2) by (simp add: dropWhile_eq_self_iff)
  have "hd (rev s) = last s"
    using assms(1) by (simp add: hd_rev)
  with assms(3) have "dropWhile isspace (rev s) = rev s"
    by (simp add: dropWhile_eq_self_iff)
  with front show ?thesis
    by (simp add: strip_def)
qed

lemma safe_char_fixed: "isalnum c \<or> c \<in> set '' ._-()+[]#/'' \<Longrightarrow> safe_char c = c"
  by (simp add: safe_char_def)

lemma normal_form_fixed:
  assumes "list_all word ws" and "ws \<noteq> []"
    and "\<And>c. c \<in> set (join_space ws) \<Longrightarrow> isalnum c \<or> c \<in> set '' ._-()+[]#/''"
  shows "join_space (split (map safe_char (strip (join_space ws)))) = join_space ws"
proof -
  have "strip (join_space ws) = join_space ws"
    using join_space_ends [OF assms(1,2)] by (simp add: strip_fixed)
  moreover have "map safe_char (join_space ws) = join_space ws"
    using assms(3) by (intro map_idI safe_char_fixed)
  ultimately show ?thesis
    using assms(1) by (simp add: split_join_space)
qed

lemma take_join_space:
  "list_all word ws
   \<Longrightarrow> take n (join_space ws) = [] \<or> last (take n (join_space ws)) = CHR '' ''
       \<or> (\<exists>ws'. ws' \<noteq> [] \<and> list_all word ws' \<and> take n (join_space ws) = join_space ws')"
proof (induction ws arbitrary: n rule: join_space.induct)
  case 1
  then show ?case by simp
next
  case (2 w)
  show ?case
  proof (cases "take n w = []")
    case True
    then show ?thesis by simp
  next
    case False
    from 2 have "list_all (\<lambda>c. \<not> isspace c) (take n w)"
      by (auto simp add: word_def list_all_iff dest: in_set_takeD)
    with False have "list_all word [take n w]"
      by (simp add: word_def)
    then have "\<exists>ws'. ws' \<noteq> [] \<and> list_all word ws' \<and> take n (join_space [w]) = join_space ws'"
      by (intro exI [of _ "[take n w]"]) simp
    then show ?thesis by blast
  qed
next
  case (3 w v ws)
  then have w: "word w" and rest: "list_all word (v # ws)"
    by simp_all
  consider "n \<le> length w" | "n = Suc (length w)" | "n > Suc (length w)"
    by linarith
  then show ?case
  proof cases
    case 1
    show ?thesis
    proof (cases "take n w = []")
      case True
      with 1 show ?thesis by simp
    next
      case False
      from w have "list_all (\<lambda>c. \<not> isspace c) (take n w)"
        by (auto simp add: word_def list_all_iff dest: in_set_takeD)
      with False have "list_all word [take n w]"
        by (simp add: word_def)
      with 1 have "\<exists>ws'. ws' \<noteq> [] \<and> list_all word ws'
            \<and> take n (join_space (w # v # ws)) = join_space ws'"
        by (intro exI [of _ "[take n w]"]) simp
      then show ?thesis by blast
    qed
  next
    case 2
    then have "take n (join_space (w # v # ws)) = w @ '' ''"
      by simp
    then show ?thesis by simp
  next
    case 3
    define k where "k = n - Suc (length w)"
    with 3 have k: "0 < k" and n: "n = length w + Suc k"
      by simp_all
    have t: "take n (join_space (w # v # ws)) = w @ CHR '' '' # take k (join_space (v # ws))"
      using n by simp
    from join_space_ends [OF rest] k have ne: "take k (join_space (v # ws)) \<noteq> []"
      by simp
    from "3.IH" [OF rest, of k] ne
    consider "last (take k (join_space (v # ws))) = CHR '' ''"
      | ws' where "ws' \<noteq> []" "list_all word ws'" "take k (join_space (v # ws)) = join_space ws'"
      by blast
    then show ?thesis
    proof cases
      case 1
      with t ne show ?thesis by simp
    next
      case 2
      then obtain v' ws'' where "ws' = v' # ws''"
        by (cases ws') auto
      with 2 t w have "w # ws' \<noteq> [] \<and> list_all word (w # ws')
          \<and> take n (join_space (w # v # ws)) = join_space (w # ws')"
        by simp
      then show ?thesis by blast
    qed
  qed
qed

lemma collapsed_alphabet:
  assumes "d \<in> set (join_space (split (map safe_char s)))"
  shows "isalnum d \<or> d \<in> set '' ._-()+[]#/''"
proof -
  from assms set_join_space
  have "d = CHR '' '' \<or> d \<in> \<Union> (set ` set (split (map safe_char s)))"
    by blast
  then show ?thesis
  proof
    assume "d = CHR '' ''"
    then show ?thesis by simp
  next
    assume "d \<in> \<Union> (set ` set (split (map safe_char s)))"
    with set_split_from [of "[]" "map safe_char s"]
    have "d \<in> set (map safe_char s)"
      unfolding split_def by auto
    then obtain e where "d = safe_char e" by auto
    then show ?thesis using kept_safe_char by simp
  qed
qed

lemma sanitize_unknown: "sanitize ''Unknown'' = ''Unknown''"
  by code_simp

lemma sanitize_cases:
  "sanitize x = ''Unknown''
   \<or> (sanitize x \<noteq> []
      \<and> sanitize x = take (if length (join_space (split (map safe_char (strip x)))) > 120
                          then 120 else length (join_space (split (map safe_char (strip x)))))
                       (join_space (split (map safe_char (strip x)))))"
  by (simp add: sanitize_def Let_def)

lemma sanitize_idempotent_unless_cut_at_space:
  assumes "last (sanitize x) \<noteq> CHR '' ''"
  shows "sanitize (sanitize x) = sanitize x"
proof -
  let ?ws = "split (map safe_char (strip x))"
  let ?s = "join_space ?ws"
  let ?n = "if length ?s > 120 then 120 else length ?s"
  from sanitize_cases [of x] show ?thesis
  proof
    assume "sanitize x = ''Unknown''"
    then show ?thesis by (simp add: sanitize_unknown)
  next
    assume b: "sanitize x \<noteq> [] \<and> sanitize x = take ?n ?s"
    have words: "list_all word ?ws"
      unfolding split_def by (rule split_from_words) simp
    from take_join_space [OF words, of ?n] b assms
    obtain ws' where ws': "ws' \<noteq> []" "list_all word ws'" "take ?n ?s = join_space ws'"
      by auto
    have chars: "isalnum c \<or> c \<in> set '' ._-()+[]#/''" if "c \<in> set (join_space ws')" for c
    proof -
      from that ws'(3) have "c \<in> set ?s"
        by (metis in_set_takeD)
      then show ?thesis by (rule collapsed_alphabet)
    qed
    have fixed: "join_space (split (map safe_char (strip (join_space ws')))) = join_space ws'"
      using ws'(2) ws'(1) chars by (rule normal_form_fixed)
    have short: "length (join_space ws') \<le> 120"
      using ws'(3) [symmetric] by simp
    have ne: "join_space ws' \<noteq> []"
      using b ws'(3) by metis
    have "sanitize (join_space ws') = join_space ws'"
      using fixed short ne by (simp add: sanitize_def Let_def)
    with b ws'(3) show ?thesis by simp
  qed
qed

lemma sanitize_idempotent_untruncated:
  assumes "length (join_space (split (map safe_char (strip x)))) \<le> 120"
  shows "sanitize (sanitize x) = sanitize x"
proof (rule sanitize_idempotent_unless_cut_at_space)
  let ?ws = "split (map safe_char (strip x))"
  from sanitize_cases [of x] show "last (sanitize x) \<noteq> CHR '' ''"
  proof
    assume "sanitize x = ''Unknown''"
    then show ?thesis by simp
  next
    assume b: "sanitize x \<noteq> []
      \<and> sanitize x = take (if length (join_space ?ws) > 120 then 120 else length (join_space ?ws))
                       (join_space ?ws)"
    with assms have eq: "sanitize x = join_space ?ws" and ne: "join_space ?ws \<noteq> []"
      by auto
    have words: "list_all word ?ws"
      unfolding split_def by (rule split_from_words) simp
    from ne have "?ws \<noteq> []"
      by auto
    with join_space_ends [OF words] have "\<not> isspace (last (join_space ?ws))"
      by simp
    with eq show ?thesis
      using isspace_space by auto
  qed
qed

text \<open>
  C4. The claim is that \<open>sanitize\<close> is idempotent, also on inputs whose collapsed form
  is longer than 120 characters. A second pass changes nothing when the first result
  does not end in a space (\<open>sanitize_idempotent_unless_cut_at_space\<close>), which is so
  whenever nothing is cut (\<open>sanitize_idempotent_untruncated\<close>). But cutting at 120
  characters can leave a space at the end, which a second pass strips: for 119 letters
  followed by a space and one more letter the first result has 120 characters and the
  second 119.
\<close>

theorem sanitize_not_idempotent:
  "sanitize (replicate 119 CHR ''a'' @ '' b'') = replicate 119 CHR ''a'' @ '' ''
   \<and> sanitize (sanitize (replicate 119 CHR ''a'' @ '' b'')) = replicate 119 CHR ''a''
   \<and> sanitize (sanitize (replicate 119 CHR ''a'' @ '' b''))
       \<noteq> sanitize (replicate 119 CHR ''a'' @ '' b'')"
  by code_simp

section \<open>Rename resolution under several workers\<close>

text \<open>
  One worker that starts a file and finishes it before anything else happens does what
  \<open>process\<close> does: the pool with a single worker is the sequential loop.
\<close>

lemma pool_step_sequential:
  "pool_step lib env self tot (pool_step lib env self tot (st, m # queue, []) Start) (Finish 0)
     = (process lib env self tot st m, queue, [])"
proof -
  have w: "0 < sort_workers self"
    by (auto simp add: sort_workers_def Let_def)
  show ?thesis
  proof (cases "stop_flag st")
    case True
    with w show ?thesis by (simp add: process_def)
  next
    case False
    with w show ?thesis
      by (cases "resolve lib env self tot st m") (simp_all add: process_def)
  qed
qed

text \<open>
  In the sequential loop every destination is chosen free and written before the next
  file is looked at, so no two files get the same one. The sources are those of a scan:
  pairwise different, and present when the run starts.
\<close>

lemma path_exists_update:
  "path_exists (AList.update k v fs0) p = (p = k \<or> path_exists fs0 p)"
  by (simp add: path_exists_def update_conv')

lemma path_exists_delete:
  "path_exists (AList.delete k fs0) p = (p \<noteq> k \<and> path_exists fs0 p)"
  by (simp add: path_exists_def delete_conv')

lemma unique_dest_loop_fresh:
  "\<not> path_exists fs0 (unique_dest_loop fs0 dest_dir base ext cand i)"
proof (induction fs0 dest_dir base ext cand i rule: unique_dest_loop.induct)
  case (1 fs0 dest_dir base ext cand i)
  show ?case
  proof (cases "path_exists fs0 cand")
    case True
    with 1 show ?thesis by (subst unique_dest_loop.simps) simp
  next
    case False
    then show ?thesis by (subst unique_dest_loop.simps) simp
  qed
qed

lemma unique_dest_fresh: "\<not> path_exists fs0 (unique_dest fs0 dest_dir name)"
  by (simp add: unique_dest_def unique_dest_loop_fresh split: prod.splits)

lemma resolve_transfer_fresh:
  "resolve lib env self tot st m = Transfer dst \<Longrightarrow> \<not> path_exists (fs st) dst"
  by (simp add: resolve_def Let_def split: if_splits) (auto simp add: unique_dest_fresh)

lemma skip_file_keeps:
  "fs (skip_file tot src key st) = fs st" "transfers (skip_file tot src key st) = transfers st"
  by (simp_all add: skip_file_def enqueue_status_def Let_def)

lemma on_exception_keeps:
  "fs (on_exception tot src st) = fs st" "transfers (on_exception tot src st) = transfers st"
  by (simp_all add: on_exception_def enqueue_status_def Let_def)

lemma resolve_return_keeps:
  "resolve lib env self tot st m = Return st1
   \<Longrightarrow> fs st1 = fs st \<and> transfers st1 = transfers st"
  by (simp add: resolve_def Let_def split: if_splits) (auto simp add: skip_file_keeps)

lemma copy2_effect:
  assumes "copy2 fs0 src dst = Some fs1"
  shows "path_exists fs0 src \<and> (\<forall>p. path_exists fs1 p = (p = dst \<or> path_exists fs0 p))"
proof -
  from assms obtain f where f: "map_of fs0 src = Some f" and r: "readable f"
    by (auto simp add: copy2_def split: option.splits if_splits)
  with assms have "fs1 = AList.update dst f fs0"
    by (simp add: copy2_def)
  with f show ?thesis
    by (simp add: path_exists_update) (simp add: path_exists_def)
qed

lemma move_effect:
  assumes "move env fs0 src dst = Some fs1"
  shows "path_exists fs0 src
       \<and> (\<forall>p. p \<noteq> src \<longrightarrow> path_exists fs1 p = (p = dst \<or> path_exists fs0 p))"
proof -
  from assms obtain f where f: "map_of fs0 src = Some f"
    by (auto simp add: move_def split: option.splits)
  then have src: "path_exists fs0 src"
    by (simp add: path_exists_def)
  show ?thesis
  proof (cases "rename_ok env src dst")
    case True
    with assms f have "fs1 = AList.update dst f (AList.delete src fs0)"
      by (simp add: move_def)
    with src show ?thesis
      by (simp add: path_exists_update path_exists_delete)
  next
    case False
    with assms f obtain fs2 where c: "copy2 fs0 src dst = Some fs2"
      and d: "fs1 = AList.delete src fs2"
      by (auto simp add: move_def split: option.splits)
    from copy2_effect [OF c] d src show ?thesis
      by (simp add: path_exists_delete)
  qed
qed

lemma transfer_effect:
  "(fs (transfer env self tot src dst st) = fs st
      \<and> transfers (transfer env self tot src dst st) = transfers st)
   \<or> (transfers (transfer env self tot src dst st) = transfers st @ [(src, dst)]
      \<and> path_exists (fs st) src
      \<and> (\<forall>p. p \<noteq> src \<longrightarrow>
            path_exists (fs (transfer env self tot src dst st)) p
              = (p = dst \<or> path_exists (fs st) p)))"
proof (cases "if action_var self = ''move'' then move env (fs st) src dst
              else copy2 (fs st) src dst")
  case None
  then show ?thesis
    by (simp add: transfer_def on_exception_keeps)
next
  case (Some fs1)
  have eff: "path_exists (fs st) src
      \<and> (\<forall>p. p \<noteq> src \<longrightarrow> path_exists fs1 p = (p = dst \<or> path_exists (fs st) p))"
  proof (cases "action_var self = ''move''")
    case True
    with Some have "move env (fs st) src dst = Some fs1" by simp
    then show ?thesis by (rule move_effect)
  next
    case False
    with Some have "copy2 (fs st) src dst = Some fs1" by simp
    from copy2_effect [OF this] show ?thesis by simp
  qed
  have t: "transfers (transfer env self tot src dst st) = transfers st @ [(src, dst)]"
    using Some by (simp add: transfer_def enqueue_status_def Let_def)
  have f: "fs (transfer env self tot src dst st) = fs1"
    using Some by (simp add: transfer_def enqueue_status_def Let_def)
  from eff t f show ?thesis by simp
qed

lemma process_effect:
  "(fs (process lib env self tot st m) = fs st
      \<and> transfers (process lib env self tot st m) = transfers st)
   \<or> (\<exists>dst. transfers (process lib env self tot st m) = transfers st @ [(path m, dst)]
      \<and> \<not> path_exists (fs st) dst
      \<and> path_exists (fs st) (path m)
      \<and> (\<forall>p. p \<noteq> path m \<longrightarrow>
            path_exists (fs (process lib env self tot st m)) p
              = (p = dst \<or> path_exists (fs st) p)))"
proof (cases "stop_flag st")
  case True
  then show ?thesis by (simp add: process_def)
next
  case False
  show ?thesis
  proof (cases "resolve lib env self tot st m")
    case (Return st1)
    with False resolve_return_keeps [OF Return] show ?thesis
      by (simp add: process_def)
  next
    case Raise
    with False show ?thesis
      by (simp add: process_def on_exception_keeps)
  next
    case (Transfer dst)
    from resolve_transfer_fresh [OF Transfer] have fresh: "\<not> path_exists (fs st) dst" .
    from False Transfer
    have p: "process lib env self tot st m = transfer env self tot (path m) dst st"
      by (simp add: process_def)
    from transfer_effect [of env self tot "path m" dst st]
    show ?thesis
    proof
      assume "fs (transfer env self tot (path m) dst st) = fs st
        \<and> transfers (transfer env self tot (path m) dst st) = transfers st"
      then show ?thesis
        unfolding p by (rule disjI1)
    next
      assume "transfers (transfer env self tot (path m) dst st) = transfers st @ [(path m, dst)]
        \<and> path_exists (fs st) (path m)
        \<and> (\<forall>p. p \<noteq> path m \<longrightarrow>
              path_exists (fs (transfer env self tot (path m) dst st)) p
                = (p = dst \<or> path_exists (fs st) p))"
      with fresh
      have "transfers (transfer env self tot (path m) dst st) = transfers st @ [(path m, dst)]
        \<and> \<not> path_exists (fs st) dst
        \<and> path_exists (fs st) (path m)
        \<and> (\<forall>p. p \<noteq> path m \<longrightarrow>
              path_exists (fs (transfer env self tot (path m) dst st)) p
                = (p = dst \<or> path_exists (fs st) p))"
        by simp
      then show ?thesis
        unfolding p by (intro disjI2 exI [of _ dst])
    qed
  qed
qed

lemma sort_loop_distinct:
  assumes "distinct (map snd (transfers st))"
    and "\<And>d. d \<in> claimed st \<Longrightarrow> path_exists (fs st) d \<and> d \<notin> path ` set metas"
    and "\<And>m. m \<in> set metas \<Longrightarrow> path_exists (fs st) (path m)"
    and "distinct (map path metas)"
  shows "distinct (map snd (transfers (sort_loop lib env self tot st metas)))"
  using assms
proof (induction metas arbitrary: st)
  case Nil
  then show ?case by simp
next
  case (Cons m metas)
  let ?st = "process lib env self tot st m"
  show ?case
  proof (cases "stop_flag st")
    case True
    with Cons.prems(1) show ?thesis by simp
  next
    case False
    have "distinct (map snd (transfers (sort_loop lib env self tot ?st metas)))"
    proof (rule Cons.IH)
      from process_effect [of lib env self tot st m]
      consider (same) "fs ?st = fs st" "transfers ?st = transfers st"
        | (moved) dst where "transfers ?st = transfers st @ [(path m, dst)]"
            "\<not> path_exists (fs st) dst" "path_exists (fs st) (path m)"
            "\<And>p. p \<noteq> path m \<Longrightarrow> path_exists (fs ?st) p = (p = dst \<or> path_exists (fs st) p)"
        by blast
      then have "distinct (map snd (transfers ?st))
          \<and> (\<forall>d \<in> claimed ?st. path_exists (fs ?st) d \<and> d \<notin> path ` set metas)
          \<and> (\<forall>m' \<in> set metas. path_exists (fs ?st) (path m'))"
      proof cases
        case same
        with Cons.prems show ?thesis
          by (auto simp add: claimed_def)
      next
        case moved
        have new: "dst \<notin> claimed st"
          using Cons.prems(2) moved(2) by blast
        have c: "claimed ?st = insert dst (claimed st)"
          using moved(1) by (auto simp add: claimed_def)
        have d1: "distinct (map snd (transfers ?st))"
          using Cons.prems(1) new moved(1) by (simp add: claimed_def)
        have src: "d \<noteq> path m" if "d \<in> claimed st" for d
          using Cons.prems(2) [OF that] by auto
        have dsrc: "dst \<noteq> path m"
          using moved(2,3) by auto
        have d2: "path_exists (fs ?st) d \<and> d \<notin> path ` set metas" if "d \<in> claimed ?st" for d
        proof (cases "d = dst")
          case True
          have "dst \<notin> path ` set metas"
            using Cons.prems(3) moved(2) by auto
          with True dsrc moved(4) show ?thesis by simp
        next
          case False
          with that c have old: "d \<in> claimed st" by simp
          with Cons.prems(2) [OF old] src [OF old] moved(4) show ?thesis by auto
        qed
        have d3: "path_exists (fs ?st) (path m')" if "m' \<in> set metas" for m'
        proof -
          from Cons.prems(4) have "path m \<notin> path ` set metas" by simp
          with that have "path m' \<noteq> path m" by (metis imageI)
          with moved(4) Cons.prems(3) [of m'] that show ?thesis by simp
        qed
        from d1 d2 d3 show ?thesis by blast
      qed
      then show "distinct (map snd (transfers ?st))"
        and "\<And>d. d \<in> claimed ?st \<Longrightarrow> path_exists (fs ?st) d \<and> d \<notin> path ` set metas"
        and "\<And>m'. m' \<in> set metas \<Longrightarrow> path_exists (fs ?st) (path m')"
        by blast+
      from Cons.prems(4) show "distinct (map path metas)" by simp
    qed
    with False show ?thesis by simp
  qed
qed

lemma sequential_destinations_distinct:
  assumes "distinct (map path metas)"
    and "\<And>m. m \<in> set metas \<Longrightarrow> path_exists fs0 (path m)"
  shows "distinct (map snd (transfers (worker_sort lib env self fs0 metas)))"
  unfolding worker_sort_def
  using assms by (intro sort_loop_distinct) (simp_all add: initial_def claimed_def)

text \<open>
  C2. The claim is that two sources never get the same final path in one run. That holds
  for one worker (\<open>sequential_destinations_distinct\<close>). With two workers and the policy
  \<open>rename\<close>, both workers can look for a free name before either has written its file:
  both find \<open>IMG_1.jpg\<close>, both copies count as successes, and the second overwrites the
  first. The sequential run of the same input gives \<open>IMG_1.jpg\<close> and \<open>IMG_2.jpg\<close>.
\<close>

theorem rename_race_same_destination:
  "transfers (fst (pool_run lib0 env0 (app0 ''rename'' 2 False) fs_collide
      [meta0 src_a ''X'', meta0 src_b ''X''] [Start, Start, Finish 0, Finish 0]))
     = [(src_a, out_dir0 @ [''IMG_1.jpg'']), (src_b, out_dir0 @ [''IMG_1.jpg''])]
   \<and> success (fst (pool_run lib0 env0 (app0 ''rename'' 2 False) fs_collide
      [meta0 src_a ''X'', meta0 src_b ''X''] [Start, Start, Finish 0, Finish 0])) = 2
   \<and> map_of (fs (fst (pool_run lib0 env0 (app0 ''rename'' 2 False) fs_collide
      [meta0 src_a ''X'', meta0 src_b ''X''] [Start, Start, Finish 0, Finish 0])))
        (out_dir0 @ [''IMG_1.jpg'']) = Some (file0 True ''bbb'')
   \<and> transfers (worker_sort lib0 env0 (app0 ''rename'' 1 False) fs_collide
      [meta0 src_a ''X'', meta0 src_b ''X''])
     = [(src_a, out_dir0 @ [''IMG_1.jpg'']), (src_b, out_dir0 @ [''IMG_2.jpg''])]"
  by code_simp

section \<open>Progress events\<close>

lemma sort_loop_stopped: "stop_flag st \<Longrightarrow> sort_loop lib env self tot st metas = st"
  by (cases metas) simp_all

lemma sort_loop_append:
  "sort_loop lib env self tot st (xs @ ys)
     = sort_loop lib env self tot (sort_loop lib env self tot st xs) ys"
  by (induction xs arbitrary: st) (simp_all add: sort_loop_stopped)

lemma queue_skip_file: "set (ui_queue st) \<subseteq> set (ui_queue (skip_file tot src key st))"
  by (auto simp add: skip_file_def enqueue_status_def Let_def)

lemma queue_on_exception: "set (ui_queue st) \<subseteq> set (ui_queue (on_exception tot src st))"
  by (auto simp add: on_exception_def enqueue_status_def Let_def)

lemma queue_transfer:
  "set (ui_queue st) \<subseteq> set (ui_queue (transfer env self tot src dst st))"
  using queue_on_exception [of st tot src]
  by (auto simp add: transfer_def enqueue_status_def Let_def split: option.splits)

lemma queue_resolve:
  "resolve lib env self tot st m = Return st1 \<Longrightarrow> set (ui_queue st) \<subseteq> set (ui_queue st1)"
  using queue_skip_file [of st tot "path m"]
  by (auto simp add: resolve_def Let_def split: if_splits)

lemma queue_process: "set (ui_queue st) \<subseteq> set (ui_queue (process lib env self tot st m))"
proof (cases "resolve lib env self tot st m")
  case (Return st1)
  then show ?thesis using queue_resolve [OF Return] by (simp add: process_def)
next
  case Raise
  then show ?thesis using queue_on_exception by (simp add: process_def)
next
  case (Transfer dst)
  then show ?thesis using queue_transfer by (simp add: process_def)
qed

lemma queue_sort_loop:
  "set (ui_queue st) \<subseteq> set (ui_queue (sort_loop lib env self tot st metas))"
proof (induction metas arbitrary: st)
  case Nil
  then show ?case by simp
next
  case (Cons m metas)
  from Cons [of "process lib env self tot st m"] queue_process [of st lib env self tot m]
  show ?case by auto
qed

text \<open>
  The skip and failure branches report a completion exactly when it is due.
\<close>

lemma on_exception_queue:
  "ui_queue (on_exception tot src st)
     = (if due (done_count st + 1) tot
        then ui_queue st @ [Status (done_count st + 1) tot ''failure_prefix'' (name_of src)]
        else ui_queue st)"
  by (simp add: on_exception_def enqueue_status_def Let_def)

text \<open>The success branch reports every completion.\<close>

lemma transfer_queue:
  assumes "(if action_var self = ''move'' then move env (fs st) src dst
            else copy2 (fs st) src dst) = Some fs1"
  shows "ui_queue (transfer env self tot src dst st)
           = ui_queue st @ [Status (done_count st + 1) tot ''processed_file'' (name_of dst)]"
  using assms by (simp add: transfer_def enqueue_status_def Let_def)

text \<open>
  C3. The claim is that a completion is reported only if it is one of the first ten, a
  multiple of a hundredth of the total, or the last. The branches for skipped and failed
  files test this; the branch for a copied or moved file reports every completion. In a
  run that copies 200 files, the eleventh completion is reported although it is none of
  the three.
\<close>

theorem success_event_not_due:
  "Status 11 200 ''processed_file'' ''10.jpg''
     \<in> set (ui_queue (worker_sort lib0 env0 (app0 ''rename'' 1 False) (card_fs 200)
               (card_metas 200)))
   \<and> \<not> due 11 200"
proof -
  have len: "length (card_metas 200) = 200"
    by (simp add: card_metas_def card_files_def)
  have first: "Status 11 200 ''processed_file'' ''10.jpg''
     \<in> set (ui_queue (sort_loop lib0 env0 (app0 ''rename'' 1 False) 200 (initial (card_fs 200))
               (take 11 (card_metas 200))))"
    by code_simp
  have "worker_sort lib0 env0 (app0 ''rename'' 1 False) (card_fs 200) (card_metas 200)
          = sort_loop lib0 env0 (app0 ''rename'' 1 False) 200 (initial (card_fs 200))
              (take 11 (card_metas 200) @ drop 11 (card_metas 200))"
    by (simp add: worker_sort_def len)
  also have "\<dots> = sort_loop lib0 env0 (app0 ''rename'' 1 False) 200
              (sort_loop lib0 env0 (app0 ''rename'' 1 False) 200 (initial (card_fs 200))
                 (take 11 (card_metas 200)))
              (drop 11 (card_metas 200))"
    by (rule sort_loop_append)
  finally have "set (ui_queue (sort_loop lib0 env0 (app0 ''rename'' 1 False) 200
                        (initial (card_fs 200)) (take 11 (card_metas 200))))
      \<subseteq> set (ui_queue (worker_sort lib0 env0 (app0 ''rename'' 1 False) (card_fs 200)
                (card_metas 200)))"
    using queue_sort_loop by simp
  with first have "Status 11 200 ''processed_file'' ''10.jpg''
     \<in> set (ui_queue (worker_sort lib0 env0 (app0 ''rename'' 1 False) (card_fs 200)
               (card_metas 200)))"
    by blast
  moreover have "\<not> due 11 200"
    by code_simp
  ultimately show ?thesis by blast
qed

end
